theory Spec2Isabelle
  imports Complex_Main "HOL-Library.Word" "HOL-Library.Signed_Division" "HOL-Library.Multiset"
    "HOL-Library.Log_Nat"
begin

section \<open>Soil data collection (coleta\_dados\_solo.ino): data model\<close>

text \<open>
  The sketch keeps its samples in a singly linked list of heap nodes, a global counter, a
  timestamp, and writes to the serial port. The embedding keeps all four explicit.

  \<^item> A \<open>float\<close> is the real number it denotes. Comparisons are those of the reals; every
    addition, division and conversion rounds its exact result to the nearest 32-bit float
    (64-bit for \<open>double\<close>), ties to even, as IEEE 754 prescribes. There is no infinity and no
    NaN: the exponent has no upper bound in the model. The sketch's numbers stay below 2048
    (sixteen readings of at most 90), far from the largest float.
  \<^item> A \<open>Node*\<close> is a \<open>nat option\<close>: \<open>None\<close> is \<open>nullptr\<close>, \<open>Some a\<close> the address \<open>a\<close>.
  \<^item> The heap maps an address to the node stored there; \<open>None\<close> means that no node is
    allocated at that address.
  \<^item> \<open>unsigned long\<close> is a 32-bit word, so the timer subtraction wraps as on the board.
  \<^item> The counter is an \<open>int\<close> of the model: the running sketch keeps it in 0..16 (lemma
    \<open>running_counter\<close>), where no machine \<open>int\<close> wraps.
  \<^item> Reading or writing through \<open>nullptr\<close> or through an unallocated address is undefined
    behaviour in C++; the model returns the fault \<open>InvalidPointer\<close>. A division whose
    divisor is zero returns the fault \<open>DivisionByZero\<close> (the model has no NaN to give).
  \<^item> A \<open>while\<close> loop over the list need not terminate on a cyclic heap: the loops are
    \<open>partial_function (option)\<close>, where \<open>None\<close> stands for a run that never returns.
\<close>

record SampleData =
  temperature :: real
  humidity :: real
  salinity :: real

type_synonym ptr = "nat option"

record Node =
  data :: SampleData
  "next" :: ptr

type_synonym heap = "nat \<Rightarrow> Node option"

datatype fault = InvalidPointer | DivisionByZero

text \<open>What \<open>Serial.print\<close> was given: a string, an \<open>int\<close>, an \<open>unsigned long\<close>, or a
  \<open>float\<close> with the number of decimals to print.\<close>

datatype serial_item =
  Str string
  | IntNum int
  | ULongNum "32 word"
  | FloatNum real nat

record state =
  heap :: heap
  dataListHead :: ptr
  sampleCount :: int
  lastSampleTime :: "32 word"
  serial :: "serial_item list"

definition SAMPLE_INTERVAL :: "32 word" where
  "SAMPLE_INTERVAL = 10000"

definition SAMPLES_PER_CYCLE :: int where
  "SAMPLES_PER_CYCLE = 16"

text \<open>The globals as the sketch initialises them, with an empty heap and nothing printed.\<close>

definition initial_state :: state where
  "initial_state =
     \<lparr>heap = (\<lambda>a. None), dataListHead = None, sampleCount = 0, lastSampleTime = 0,
      serial = []\<rparr>"

subsection \<open>Results of fallible, possibly non-returning code\<close>

type_synonym 'a run = "(fault + 'a) option"

definition and_then :: "'a run \<Rightarrow> ('a \<Rightarrow> 'b run) \<Rightarrow> 'b run" where
  "and_then m f = (case m of None \<Rightarrow> None | Some (Inl e) \<Rightarrow> Some (Inl e) | Some (Inr x) \<Rightarrow> f x)"

definition returns :: "'a \<Rightarrow> 'a run" where
  "returns x = Some (Inr x)"

definition faults :: "fault \<Rightarrow> 'a run" where
  "faults e = Some (Inl e)"

text \<open>\<open>p->...\<close>: the node a pointer refers to, \<open>None\<close> when the pointer is \<open>nullptr\<close> or
  no node is allocated at its address.\<close>

definition deref :: "heap \<Rightarrow> ptr \<Rightarrow> Node option" where
  "deref h p = (case p of None \<Rightarrow> None | Some a \<Rightarrow> h a)"

subsection \<open>Serial output\<close>

text \<open>\<open>Serial.print\<close> and \<open>Serial.println\<close> give the items they send (\<open>println\<close> ends the
  line with CR LF); \<open>emit\<close> appends items to what the port has received so far.\<close>

definition Serial_print :: "serial_item \<Rightarrow> serial_item list" where
  "Serial_print x = [x]"

definition Serial_println :: "serial_item \<Rightarrow> serial_item list" where
  "Serial_println x = [x, Str [CHR 0x0D, CHR 0x0A]]"

definition emit :: "serial_item list \<Rightarrow> state \<Rightarrow> state" where
  "emit xs s = s\<lparr>serial := serial s @ xs\<rparr>"

section \<open>Floating-point arithmetic\<close>

text \<open>Rounding a real to the nearest integer, a tie going to the even one.\<close>

definition round_half_even :: "real \<Rightarrow> int" where
  "round_half_even q =
     (let f = \<lfloor>q\<rfloor>
      in if q - of_int f < 1 / 2 then f
         else if 1 / 2 < q - of_int f then f + 1
         else if even f then f else f + 1)"

text \<open>The binary exponent of a real other than 0: the \<open>e\<close> with \<open>2^e \<le> |x| < 2^(e+1)\<close>,
  computed from the bit length of the integer part, or of the reciprocal.\<close>

definition binary_exponent :: "real \<Rightarrow> int" where
  "binary_exponent x =
     (if 1 \<le> \<bar>x\<bar> then int (floorlog 2 (nat \<lfloor>\<bar>x\<bar>\<rfloor>)) - 1
      else - int (floorlog 2 (nat (\<lceil>1 / \<bar>x\<bar>\<rceil> - 1))))"

definition two_to :: "int \<Rightarrow> real" where
  "two_to k = (if 0 \<le> k then 2 ^ nat k else 1 / 2 ^ nat (- k))"

text \<open>\<open>to_binary p emin x\<close>: the binary floating-point number with \<open>p\<close> significant bits and
  least exponent \<open>emin\<close> that is nearest to \<open>x\<close>. Numbers with the exponent of \<open>x\<close> are the
  multiples of \<open>2^(e - p + 1)\<close>; below \<open>2^emin\<close> the spacing stays that of \<open>emin\<close> (subnormal
  numbers).\<close>

definition to_binary :: "nat \<Rightarrow> int \<Rightarrow> real \<Rightarrow> real" where
  "to_binary p emin x =
     (if x = 0 then 0
      else let ulp = two_to (max (binary_exponent x) emin - int p + 1)
           in real_of_int (round_half_even (x / ulp)) * ulp)"

text \<open>\<open>float\<close> is IEEE binary32, \<open>double\<close> is IEEE binary64. (On boards whose \<open>double\<close> is
  32 bits wide the three sensor functions below return the same floats.)\<close>

definition to_float :: "real \<Rightarrow> real" where
  "to_float = to_binary 24 (- 126)"

definition to_double :: "real \<Rightarrow> real" where
  "to_double = to_binary 53 (- 1022)"

text \<open>\<open>x + y\<close> on two floats, and \<open>x / n\<close> on a float and an \<open>int\<close>: the \<open>int\<close> is converted to
  \<open>float\<close>, then the quotient is rounded.\<close>

definition float_add :: "real \<Rightarrow> real \<Rightarrow> real" where
  "float_add x y = to_float (x + y)"

definition float_div_int :: "real \<Rightarrow> int \<Rightarrow> real" where
  "float_div_int x n = to_float (x / to_float (real_of_int n))"

section \<open>Sensor simulation\<close>

text \<open>\<open>rand()\<close> is an input: each function takes the value \<open>rand()\<close> returned. C's \<open>%\<close> on
  \<open>int\<close> truncates towards zero, which is \<open>smod\<close>. The remainder is converted to \<open>double\<close>
  (exactly), divided by the \<open>double\<close> 10.0 and added to a \<open>double\<close> constant, each operation
  rounding to \<open>double\<close>; the \<open>return\<close> converts the result to \<open>float\<close>.\<close>

definition readSimulatedTemperature :: "int \<Rightarrow> real" where
  "readSimulatedTemperature r =
     to_float (to_double (15.0 + to_double (real_of_int (r smod 200) / 10.0)))"

definition readSimulatedHumidity :: "int \<Rightarrow> real" where
  "readSimulatedHumidity r =
     to_float (to_double (30.0 + to_double (real_of_int (r smod 600) / 10.0)))"

definition readSimulatedSalinity :: "int \<Rightarrow> real" where
  "readSimulatedSalinity r =
     to_float (to_double (0.5 + to_double (real_of_int (r smod 35) / 10.0)))"

section \<open>Main logic\<close>

text \<open>\<open>collectSample\<close> takes the three values of \<open>rand()\<close> and the pointer \<open>new Node\<close>
  returned (\<open>nullptr\<close> when the allocation fails, which the sketch does not check).\<close>

definition collectSample :: "int \<Rightarrow> int \<Rightarrow> int \<Rightarrow> ptr \<Rightarrow> state \<Rightarrow> fault + state" where
  "collectSample r1 r2 r3 newNode s =
     (let newSample = \<lparr>temperature = readSimulatedTemperature r1,
                       humidity = readSimulatedHumidity r2,
                       salinity = readSimulatedSalinity r3\<rparr>
      in case newNode of
           None \<Rightarrow> Inl InvalidPointer
         | Some a \<Rightarrow>
             Inr (s\<lparr>heap := (heap s)(a \<mapsto> \<lparr>data = newSample, next = dataListHead s\<rparr>),
                    dataListHead := newNode,
                    sampleCount := sampleCount s + 1\<rparr>))"

definition decideIrrigation :: "real \<Rightarrow> real \<Rightarrow> real \<Rightarrow> string" where
  "decideIrrigation temp hum sal =
     (if hum < 45.0 then
        (if sal > 3.0 then ''NAO IRRIGAR (Risco de Salinidade Alta)''
         else ''IRRIGAR (Umidade Baixa)'')
      else if hum > 80.0 then ''NAO IRRIGAR (Umidade Alta)''
      else ''NAO IRRIGAR (Nivel Ideal)'')"

definition printReport :: "real \<Rightarrow> real \<Rightarrow> real \<Rightarrow> string \<Rightarrow> int \<Rightarrow> serial_item list" where
  "printReport temp hum sal decision cnt =
     Serial_println (Str ''-------------------------------------------------'') @
     Serial_println (Str ''RELATORIO DE PROCESSAMENTO (Ciclo de 4 Horas)'') @
     Serial_println (Str ''-------------------------------------------------'') @
     Serial_print (Str ''Amostras processadas (apos remocao min/max): '') @
     Serial_println (IntNum cnt) @
     Serial_println (Str (CHR 0x0A # ''Valores Medios:'')) @
     Serial_print (Str ''  Temperatura Media: '') @
     Serial_print (FloatNum temp 2) @
     Serial_println (Str '' C'') @
     Serial_print (Str ''  Umidade Media:     '') @
     Serial_print (FloatNum hum 2) @
     Serial_println (Str '' %'') @
     Serial_print (Str ''  Salinidade Media:  '') @
     Serial_print (FloatNum sal 2) @
     Serial_println (Str '' dS/m (simulado)'') @
     Serial_println (Str (CHR 0x0A # ''Decisao de Irrigacao:'')) @
     Serial_print (Str ''  '') @
     Serial_println (Str decision) @
     Serial_println (Str ''-------------------------------------------------'')"

text \<open>First loop of \<open>processAndReportData\<close> (lines 131 to 142): one pass that tracks the
  node of least and the node of greatest temperature, and the predecessor of each.\<close>

partial_function (option) find_min_max ::
  "heap \<Rightarrow> ptr \<Rightarrow> ptr \<Rightarrow> ptr \<Rightarrow> ptr \<Rightarrow> ptr \<Rightarrow> ptr \<Rightarrow> (fault + ptr \<times> ptr \<times> ptr \<times> ptr) option"
where
  "find_min_max h current prev minNode minNodePrev maxNode maxNodePrev =
     (if current = None then Some (Inr (minNode, minNodePrev, maxNode, maxNodePrev))
      else
        (case deref h current of None \<Rightarrow> Some (Inl InvalidPointer) | Some c \<Rightarrow>
        (case deref h minNode of None \<Rightarrow> Some (Inl InvalidPointer) | Some mn \<Rightarrow>
        (case deref h maxNode of None \<Rightarrow> Some (Inl InvalidPointer) | Some mx \<Rightarrow>
          find_min_max h (next c) current
            (if temperature (data c) < temperature (data mn) then current else minNode)
            (if temperature (data c) < temperature (data mn) then prev else minNodePrev)
            (if temperature (data c) > temperature (data mx) then current else maxNode)
            (if temperature (data c) > temperature (data mx) then prev else maxNodePrev)))))"

text \<open>Second loop (lines 163 to 173): sums the three fields over every node whose address is
  neither \<open>minNode\<close> nor \<open>maxNode\<close>, and counts those nodes. Each \<open>+=\<close> is a \<open>float\<close>
  addition.\<close>

partial_function (option) sum_remaining ::
  "heap \<Rightarrow> ptr \<Rightarrow> ptr \<Rightarrow> ptr \<Rightarrow> real \<Rightarrow> real \<Rightarrow> real \<Rightarrow> int \<Rightarrow> (fault + real \<times> real \<times> real \<times> int) option"
where
  "sum_remaining h current minNode maxNode sumTemp sumHum sumSal remainingCount =
     (if current = None then Some (Inr (sumTemp, sumHum, sumSal, remainingCount))
      else
        (case deref h current of None \<Rightarrow> Some (Inl InvalidPointer) | Some c \<Rightarrow>
          (if current \<noteq> minNode \<and> current \<noteq> maxNode then
             sum_remaining h (next c) minNode maxNode
               (float_add sumTemp (temperature (data c)))
               (float_add sumHum (humidity (data c)))
               (float_add sumSal (salinity (data c)))
               (remainingCount + 1)
           else
             sum_remaining h (next c) minNode maxNode sumTemp sumHum sumSal remainingCount)))"

text \<open>The two lines the sketch prints between the loops.\<close>

definition removal_lines :: "real \<Rightarrow> real \<Rightarrow> serial_item list" where
  "removal_lines tmin tmax =
     Serial_print (Str (''Removendo valor M'' @ [CHR 0xC3, CHR 0x8D] @ ''NIMO (Temp: '')) @
     Serial_print (FloatNum tmin 2) @
     Serial_println (Str '')'') @
     Serial_print (Str (''Removendo valor M'' @ [CHR 0xC3, CHR 0x81] @ ''XIMO (Temp: '')) @
     Serial_print (FloatNum tmax 2) @
     Serial_println (Str '')'')"

definition processAndReportData :: "state \<Rightarrow> state run" where
  "processAndReportData s =
     (if sampleCount s \<noteq> SAMPLES_PER_CYCLE then returns s
      else
        and_then
          (find_min_max (heap s) (dataListHead s) None (dataListHead s) None (dataListHead s) None)
          (\<lambda>(minNode, minNodePrev, maxNode, maxNodePrev).
        (case deref (heap s) minNode of None \<Rightarrow> faults InvalidPointer | Some mn \<Rightarrow>
        (case deref (heap s) maxNode of None \<Rightarrow> faults InvalidPointer | Some mx \<Rightarrow>
        (let s1 = emit (removal_lines (temperature (data mn)) (temperature (data mx))) s in
        and_then
          (sum_remaining (heap s1) (dataListHead s1) minNode maxNode 0 0 0 0)
          (\<lambda>(sumTemp, sumHum, sumSal, remainingCount).
        (if remainingCount = 0 then faults DivisionByZero
         else
           (let avgTemp = float_div_int sumTemp remainingCount;
                avgHum = float_div_int sumHum remainingCount;
                avgSal = float_div_int sumSal remainingCount;
                irrigationDecision = decideIrrigation avgTemp avgHum avgSal
            in returns
                 (emit (printReport avgTemp avgHum avgSal irrigationDecision remainingCount)
                    s1)))))))))"

text \<open>The loop of \<open>clearList\<close>: reads \<open>current->next\<close>, deletes the node, moves on.\<close>

partial_function (option) clearList_loop :: "heap \<Rightarrow> ptr \<Rightarrow> (fault + heap) option"
where
  "clearList_loop h current =
     (case current of
        None \<Rightarrow> Some (Inr h)
      | Some a \<Rightarrow>
          (case h a of
             None \<Rightarrow> Some (Inl InvalidPointer)
           | Some c \<Rightarrow> clearList_loop (h(a := None)) (next c)))"

definition clearList :: "state \<Rightarrow> state run" where
  "clearList s =
     and_then (clearList_loop (heap s) (dataListHead s))
       (\<lambda>h. returns (s\<lparr>heap := h, dataListHead := None, sampleCount := 0\<rparr>))"

section \<open>The sketch's entry points\<close>

text \<open>The sketch's \<open>setup()\<close> prints the banner. (Its wait for the serial port is outside
  the model.)\<close>

definition sketch_setup :: "state \<Rightarrow> state" where
  "sketch_setup s =
     emit
       (Serial_println (Str ''--- Sistema de Monitoramento de Solo Iniciado ---'') @
        Serial_print (Str ''Coletando 1 amostra a cada '') @
        Serial_print (ULongNum (SAMPLE_INTERVAL div 1000)) @
        Serial_println
          (Str ('' segundos (simula'' @ [CHR 0xC3, CHR 0xA7, CHR 0xC3, CHR 0xA3] @ ''o).'')))
       s"

text \<open>What one call of \<open>loop\<close> reads from outside: the two values of \<open>millis()\<close>, the three of
  \<open>rand()\<close>, and the pointer \<open>new Node\<close> gives.\<close>

record inputs =
  millis_test :: "32 word"
  millis_stamp :: "32 word"
  rand_temperature :: int
  rand_humidity :: int
  rand_salinity :: int
  new_Node :: ptr

definition loop :: "inputs \<Rightarrow> state \<Rightarrow> state run" where
  "loop i s =
     (if millis_test i - lastSampleTime s \<ge> SAMPLE_INTERVAL then
        (case collectSample (rand_temperature i) (rand_humidity i) (rand_salinity i) (new_Node i)
                (s\<lparr>lastSampleTime := millis_stamp i\<rparr>) of
           Inl e \<Rightarrow> faults e
         | Inr s1 \<Rightarrow>
             (case deref (heap s1) (dataListHead s1) of
                None \<Rightarrow> faults InvalidPointer
              | Some hd_node \<Rightarrow>
                  (let s2 = emit
                         (Serial_print (Str ''Amostra '') @
                          Serial_print (IntNum (sampleCount s1)) @
                          Serial_print (Str '' coletada. (Temp: '') @
                          Serial_print (FloatNum (temperature (data hd_node)) 2) @
                          Serial_println (Str '' C)''))
                         s1
                   in if sampleCount s2 = SAMPLES_PER_CYCLE then
                        and_then
                          (processAndReportData
                             (emit
                                (Serial_println
                                   (Str (CHR 0x0A # ''--- Ciclo de 4 horas conclu'' @
                                         [CHR 0xC3, CHR 0xAD] @
                                         ''do. Processando dados... ---'')))
                                s2))
                          (\<lambda>s3.
                        and_then (clearList s3)
                          (\<lambda>s4.
                        returns
                          (emit
                             (Serial_println
                                (Str (''--- Lista de dados limpa. Iniciando novo ciclo. ---'' @
                                      [CHR 0x0A])))
                             s4)))
                      else returns s2)))
      else returns s)"

section \<open>Vocabulary of the properties\<close>

text \<open>The definitions of this section are not code of the sketch: they say what the
  properties below talk about.\<close>

subsection \<open>The sample sequence a heap holds\<close>

text \<open>\<open>node_list h p ns\<close>: following \<open>next\<close> from the pointer \<open>p\<close> in the heap \<open>h\<close> visits
  exactly the nodes \<open>ns\<close>, each given as its address and the sample stored there, and then
  reaches \<open>nullptr\<close>. The order of \<open>ns\<close> is the order of traversal from the head.\<close>

fun node_list :: "heap \<Rightarrow> ptr \<Rightarrow> (nat \<times> SampleData) list \<Rightarrow> bool" where
  "node_list h p [] = (p = None)"
| "node_list h p (n # ns) =
     (p = Some (fst n) \<and>
      (case h (fst n) of None \<Rightarrow> False | Some c \<Rightarrow> data c = snd n \<and> node_list h (next c) ns))"

text \<open>\<open>stored h n\<close>: the heap holds a node at the address of \<open>n\<close>, with the sample of \<open>n\<close>.\<close>

definition stored :: "heap \<Rightarrow> nat \<times> SampleData \<Rightarrow> bool" where
  "stored h n = (case h (fst n) of None \<Rightarrow> False | Some c \<Rightarrow> data c = snd n)"

abbreviation temp_of :: "nat \<times> SampleData \<Rightarrow> real" where
  "temp_of n \<equiv> temperature (snd n)"

subsection \<open>What the two loops compute, on the sequence\<close>

text \<open>The value of \<open>minNode\<close> (of \<open>maxNode\<close>) after the first loop has visited \<open>ns\<close>, when it
  was \<open>m\<close> before: a later node replaces it only when strictly colder (warmer).\<close>

fun select_min :: "nat \<times> SampleData \<Rightarrow> (nat \<times> SampleData) list \<Rightarrow> nat \<times> SampleData" where
  "select_min m [] = m"
| "select_min m (n # ns) =
     select_min (if temperature (snd n) < temperature (snd m) then n else m) ns"

fun select_max :: "nat \<times> SampleData \<Rightarrow> (nat \<times> SampleData) list \<Rightarrow> nat \<times> SampleData" where
  "select_max m [] = m"
| "select_max m (n # ns) =
     select_max (if temperature (snd n) > temperature (snd m) then n else m) ns"

text \<open>The nodes the second loop adds up: those whose address is neither pointer.\<close>

definition remaining_nodes :: "ptr \<Rightarrow> ptr \<Rightarrow> (nat \<times> SampleData) list \<Rightarrow> (nat \<times> SampleData) list" where
  "remaining_nodes minNode maxNode ns =
     filter (\<lambda>n. Some (fst n) \<noteq> minNode \<and> Some (fst n) \<noteq> maxNode) ns"

text \<open>The sum the second loop holds for one field after it has added the nodes \<open>ns\<close>, in
  this order, to \<open>acc\<close>: every addition rounds to \<open>float\<close>.\<close>

fun sum_from :: "(SampleData \<Rightarrow> real) \<Rightarrow> real \<Rightarrow> (nat \<times> SampleData) list \<Rightarrow> real" where
  "sum_from f acc [] = acc"
| "sum_from f acc (n # ns) = sum_from f (float_add acc (f (snd n))) ns"

definition sum_over :: "(SampleData \<Rightarrow> real) \<Rightarrow> (nat \<times> SampleData) list \<Rightarrow> real" where
  "sum_over f ns = sum_from f 0 ns"

text \<open>The mean as the sketch computes it: that sum, divided in \<open>float\<close> by the number of
  nodes.\<close>

definition mean :: "(SampleData \<Rightarrow> real) \<Rightarrow> (nat \<times> SampleData) list \<Rightarrow> real" where
  "mean f ns = float_div_int (sum_over f ns) (int (length ns))"

text \<open>The arithmetic mean of one field over a list of nodes, without any rounding.\<close>

definition exact_mean :: "(SampleData \<Rightarrow> real) \<Rightarrow> (nat \<times> SampleData) list \<Rightarrow> real" where
  "exact_mean f ns = sum_list (map (\<lambda>n. f (snd n)) ns) / real (length ns)"

text \<open>Everything one processing step prints when it excludes \<open>nmin\<close> and \<open>nmax\<close> and averages
  over \<open>rest\<close>: the two removal lines, then the report with the count, the three means and the
  decision taken on them.\<close>

definition report_of ::
  "nat \<times> SampleData \<Rightarrow> nat \<times> SampleData \<Rightarrow> (nat \<times> SampleData) list \<Rightarrow> serial_item list" where
  "report_of nmin nmax rest =
     removal_lines (temp_of nmin) (temp_of nmax) @
     printReport (mean temperature rest) (mean humidity rest) (mean salinity rest)
       (decideIrrigation (mean temperature rest) (mean humidity rest) (mean salinity rest))
       (int (length rest))"

subsection \<open>Running the sampler several times\<close>

text \<open>\<open>collectSample\<close> once for each entry: the three values of \<open>rand()\<close> and the address the
  allocation gave.\<close>

fun collect_samples :: "(int \<times> int \<times> int \<times> nat) list \<Rightarrow> state \<Rightarrow> fault + state" where
  "collect_samples [] s = Inr s"
| "collect_samples ((r1, r2, r3, a) # qs) s =
     (case collectSample r1 r2 r3 (Some a) s of
        Inl e \<Rightarrow> Inl e
      | Inr s' \<Rightarrow> collect_samples qs s')"

text \<open>The node one such call creates.\<close>

definition sampled :: "int \<times> int \<times> int \<times> nat \<Rightarrow> nat \<times> SampleData" where
  "sampled q =
     (case q of (r1, r2, r3, a) \<Rightarrow>
        (a, \<lparr>temperature = readSimulatedTemperature r1,
             humidity = readSimulatedHumidity r2,
             salinity = readSimulatedSalinity r3\<rparr>))"

definition state_after :: "(int \<times> int \<times> int \<times> nat) list \<Rightarrow> state" where
  "state_after qs =
     (case collect_samples qs initial_state of Inl e \<Rightarrow> initial_state | Inr s \<Rightarrow> s)"

subsection \<open>Reachable states\<close>

text \<open>The ranges the comments of the three sensor functions announce.\<close>

definition in_range :: "SampleData \<Rightarrow> bool" where
  "in_range d =
     (15 \<le> temperature d \<and> temperature d \<le> 35 \<and>
      30 \<le> humidity d \<and> humidity d \<le> 90 \<and>
      0.5 \<le> salinity d \<and> salinity d \<le> 4)"

text \<open>The states the sketch can be in: the initial globals, and whatever any sequence of its
  operations makes of them. An allocation that succeeds returns an address at which no node
  is allocated, and \<open>rand()\<close> returns a value from 0 to \<open>RAND_MAX\<close>.\<close>

inductive reachable :: "state \<Rightarrow> bool" where
  start: "reachable initial_state"
| printed: "reachable s \<Longrightarrow> reachable (emit xs s)"
| stamped: "reachable s \<Longrightarrow> reachable (s\<lparr>lastSampleTime := t\<rparr>)"
| collected: "reachable s \<Longrightarrow> heap s a = None \<Longrightarrow> 0 \<le> r1 \<Longrightarrow> 0 \<le> r2 \<Longrightarrow> 0 \<le> r3 \<Longrightarrow>
     collectSample r1 r2 r3 (Some a) s = Inr s' \<Longrightarrow> reachable s'"
| processed: "reachable s \<Longrightarrow> processAndReportData s = Some (Inr s') \<Longrightarrow> reachable s'"
| cleared: "reachable s \<Longrightarrow> clearList s = Some (Inr s') \<Longrightarrow> reachable s'"

text \<open>\<open>well_formed s ns\<close>: the list of state \<open>s\<close> holds the nodes \<open>ns\<close>, the counter is their
  number, and every sample is in range.\<close>

definition well_formed :: "state \<Rightarrow> (nat \<times> SampleData) list \<Rightarrow> bool" where
  "well_formed s ns =
     (node_list (heap s) (dataListHead s) ns \<and> sampleCount s = int (length ns) \<and>
      list_all (\<lambda>n. in_range (snd n)) ns)"

text \<open>Draws the sampler can get in state \<open>s\<close>: the addresses differ from each other, none is
  allocated in \<open>s\<close>, and no value of \<open>rand()\<close> is negative.\<close>

definition usable_draws :: "state \<Rightarrow> (int \<times> int \<times> int \<times> nat) list \<Rightarrow> bool" where
  "usable_draws s qs =
     (distinct (map (\<lambda>q. snd (snd (snd q))) qs) \<and>
      list_all (\<lambda>q. case q of (r1, r2, r3, a) \<Rightarrow> heap s a = None \<and> 0 \<le> r1 \<and> 0 \<le> r2 \<and> 0 \<le> r3) qs)"

subsection \<open>Exactly one coldest and exactly one warmest sample\<close>

definition unique_extremes :: "(nat \<times> SampleData) list \<Rightarrow> bool" where
  "unique_extremes ns =
     ((\<exists>nmin\<in>set ns. \<forall>n\<in>set ns. n \<noteq> nmin \<longrightarrow> temp_of nmin < temp_of n) \<and>
      (\<exists>nmax\<in>set ns. \<forall>n\<in>set ns. n \<noteq> nmax \<longrightarrow> temp_of n < temp_of nmax))"

subsection \<open>The states of the running sketch\<close>

text \<open>What the board does: the banner once, then \<open>loop\<close> again and again, each call with the
  values it reads from outside.\<close>

inductive running :: "state \<Rightarrow> bool" where
  booted: "running (sketch_setup initial_state)"
| looped: "running s \<Longrightarrow> \<forall>a. new_Node i = Some a \<longrightarrow> heap s a = None \<Longrightarrow>
     0 \<le> rand_temperature i \<Longrightarrow> 0 \<le> rand_humidity i \<Longrightarrow> 0 \<le> rand_salinity i \<Longrightarrow>
     loop i s = Some (Inr s') \<Longrightarrow> running s'"

subsection \<open>Sample cycles used as examples\<close>

text \<open>Sixteen draws each, in the order drawn, with the addresses 0 to 15; the list holds them
  last drawn first. In \<open>draws_rounded_a\<close> and \<open>draws_rounded_b\<close> the first draw is the one
  coldest sample (15.0) and the last the one warmest (30.0); between them are seven samples
  (15.1, 30.1, 0.5) and seven samples (15.2, 59.9, 0.6), in the one order or the other.\<close>

definition draws_rounded_a :: "(int \<times> int \<times> int \<times> nat) list" where
  "draws_rounded_a =
     [(0, 0, 5, 0), (1, 1, 0, 1), (1, 1, 0, 2), (1, 1, 0, 3),
      (1, 1, 0, 4), (1, 1, 0, 5), (1, 1, 0, 6), (1, 1, 0, 7),
      (2, 299, 1, 8), (2, 299, 1, 9), (2, 299, 1, 10), (2, 299, 1, 11),
      (2, 299, 1, 12), (2, 299, 1, 13), (2, 299, 1, 14), (150, 0, 5, 15)]"

definition draws_rounded_b :: "(int \<times> int \<times> int \<times> nat) list" where
  "draws_rounded_b =
     [(0, 0, 5, 0), (2, 299, 1, 1), (2, 299, 1, 2), (2, 299, 1, 3),
      (2, 299, 1, 4), (2, 299, 1, 5), (2, 299, 1, 6), (2, 299, 1, 7),
      (1, 1, 0, 8), (1, 1, 0, 9), (1, 1, 0, 10), (1, 1, 0, 11),
      (1, 1, 0, 12), (1, 1, 0, 13), (1, 1, 0, 14), (150, 0, 5, 15)]"

text \<open>In \<open>draws_tied_a\<close> and \<open>draws_tied_b\<close> two samples share the lowest temperature 15.0,
  one with humidity 30.0 and one with humidity 89.0, and the fourteen others are equal
  (20.0, 44.0, 1.0). The two cycles hold the same samples; only the order of the last two
  draws differs.\<close>

definition draws_tied_a :: "(int \<times> int \<times> int \<times> nat) list" where
  "draws_tied_a =
     [(50, 140, 5, 0), (50, 140, 5, 1), (50, 140, 5, 2), (50, 140, 5, 3),
      (50, 140, 5, 4), (50, 140, 5, 5), (50, 140, 5, 6), (50, 140, 5, 7),
      (50, 140, 5, 8), (50, 140, 5, 9), (50, 140, 5, 10), (50, 140, 5, 11),
      (50, 140, 5, 12), (50, 140, 5, 13), (0, 590, 5, 14), (0, 0, 5, 15)]"

definition draws_tied_b :: "(int \<times> int \<times> int \<times> nat) list" where
  "draws_tied_b =
     [(50, 140, 5, 0), (50, 140, 5, 1), (50, 140, 5, 2), (50, 140, 5, 3),
      (50, 140, 5, 4), (50, 140, 5, 5), (50, 140, 5, 6), (50, 140, 5, 7),
      (50, 140, 5, 8), (50, 140, 5, 9), (50, 140, 5, 10), (50, 140, 5, 11),
      (50, 140, 5, 12), (50, 140, 5, 13), (0, 0, 5, 14), (0, 590, 5, 15)]"

text \<open>In \<open>draws_level\<close> every temperature is 22.0; ten samples of humidity 30.1 are drawn
  first, then five of humidity 74.8, then the head of the list.\<close>

definition draws_level :: "(int \<times> int \<times> int \<times> nat) list" where
  "draws_level =
     [(70, 1, 5, 0), (70, 1, 5, 1), (70, 1, 5, 2), (70, 1, 5, 3),
      (70, 1, 5, 4), (70, 1, 5, 5), (70, 1, 5, 6), (70, 1, 5, 7),
      (70, 1, 5, 8), (70, 1, 5, 9), (70, 448, 5, 10), (70, 448, 5, 11),
      (70, 448, 5, 12), (70, 448, 5, 13), (70, 448, 5, 14), (70, 0, 5, 15)]"

section \<open>Supporting lemmas\<close>

subsection \<open>A list in the heap is determined by its head, and never visits a node twice\<close>

lemma node_list_unique: "node_list h p ns \<Longrightarrow> node_list h p ms \<Longrightarrow> ns = ms"
proof (induction ns arbitrary: p ms)
  case Nil
  then show ?case by (cases ms) auto
next
  case (Cons n ns)
  then show ?case
    by (cases ms) (auto split: option.splits simp: prod_eq_iff)
qed

lemma node_list_suffix: "node_list h p (xs @ ys) \<Longrightarrow> \<exists>q. node_list h q ys"
  by (induction xs arbitrary: p) (auto split: option.splits)

lemma node_list_distinct: "node_list h p ns \<Longrightarrow> distinct (map fst ns)"
proof (induction ns arbitrary: p)
  case Nil
  then show ?case by simp
next
  case (Cons n ns)
  from Cons.prems obtain c where c: "h (fst n) = Some c" and tl: "node_list h (next c) ns"
    by (auto split: option.splits)
  have "fst n \<notin> fst ` set ns"
  proof
    assume "fst n \<in> fst ` set ns"
    then obtain m where m: "m \<in> set ns" and fm: "fst m = fst n" by auto
    from m obtain xs ys where ns: "ns = xs @ m # ys" by (auto simp: in_set_conv_decomp)
    with tl obtain q where "node_list h q (m # ys)" using node_list_suffix by blast
    with c fm have "node_list h (next c) ys" by (auto split: option.splits)
    with tl have "ys = ns" using node_list_unique by blast
    with ns have "length ns = length (xs @ m # ns)" by simp
    then show False by simp
  qed
  with Cons.IH[OF tl] show ?case by simp
qed

lemma node_list_distinct_nodes: "node_list h p ns \<Longrightarrow> distinct ns"
  using node_list_distinct distinct_map by blast

lemma same_address:
  assumes "node_list h p ns" "a \<in> set ns" "n \<in> set ns"
  shows "(fst n = fst a) = (n = a)"
proof -
  from assms(1) have "inj_on fst (set ns)" using node_list_distinct distinct_map by blast
  with assms(2,3) show ?thesis by (auto dest: inj_onD)
qed

lemma node_list_stored: "node_list h p ns \<Longrightarrow> n \<in> set ns \<Longrightarrow> stored h n"
proof (induction ns arbitrary: p)
  case Nil
  then show ?case by simp
next
  case (Cons k ns)
  from Cons.prems(1) obtain c where c: "h (fst k) = Some c" "data c = snd k"
    and tl: "node_list h (next c) ns"
    by (auto split: option.splits)
  show ?case
  proof (cases "n = k")
    case True
    with c show ?thesis by (simp add: stored_def)
  next
    case False
    with Cons.prems(2) have "n \<in> set ns" by simp
    with Cons.IH[OF tl] show ?thesis by simp
  qed
qed

lemma node_list_allocated: "node_list h p ns \<Longrightarrow> n \<in> set ns \<Longrightarrow> h (fst n) \<noteq> None"
  using node_list_stored[of h p ns n] by (auto simp: stored_def split: option.splits)

lemma node_list_update_other:
  "a \<notin> fst ` set ns \<Longrightarrow> node_list (h(a := v)) p ns = node_list h p ns"
  by (induction ns arbitrary: p) (auto split: option.splits)

lemma node_list_update_fresh:
  assumes "h a = None" "node_list h p ns"
  shows "node_list (h(a := v)) p ns"
proof -
  have "a \<notin> fst ` set ns"
  proof
    assume "a \<in> fst ` set ns"
    then obtain n where n: "n \<in> set ns" and a: "fst n = a" by auto
    from node_list_allocated[OF assms(2) n] a assms(1) show False by simp
  qed
  then show ?thesis using assms(2) by (simp add: node_list_update_other)
qed

subsection \<open>The loops compute what the vocabulary says\<close>

lemma find_min_max_nodes:
  "node_list h cur ns \<Longrightarrow> stored h m \<Longrightarrow> stored h x \<Longrightarrow>
   \<exists>mp xp. find_min_max h cur prev (Some (fst m)) mp0 (Some (fst x)) xp0 =
     Some (Inr (Some (fst (select_min m ns)), mp, Some (fst (select_max x ns)), xp))"
proof (induction ns arbitrary: cur prev m x mp0 xp0)
  case Nil
  then show ?case by (subst find_min_max.simps) simp
next
  case (Cons n ns)
  from Cons.prems(1) obtain c where cur: "cur = Some (fst n)" and c: "h (fst n) = Some c"
    and dc: "data c = snd n" and tl: "node_list h (next c) ns"
    by (auto split: option.splits)
  from Cons.prems(2) obtain cm where cm: "h (fst m) = Some cm" and dm: "data cm = snd m"
    by (auto simp: stored_def split: option.splits)
  from Cons.prems(3) obtain cx where cx: "h (fst x) = Some cx" and dx: "data cx = snd x"
    by (auto simp: stored_def split: option.splits)
  define m' where "m' = (if temperature (snd n) < temperature (snd m) then n else m)"
  define x' where "x' = (if temperature (snd n) > temperature (snd x) then n else x)"
  have sn: "stored h n" using c dc by (simp add: stored_def)
  have sm: "stored h m'" using sn Cons.prems(2) by (simp add: m'_def)
  have sx: "stored h x'" using sn Cons.prems(3) by (simp add: x'_def)
  have pm: "(if temperature (snd n) < temperature (snd m) then cur else Some (fst m)) = Some (fst m')"
    by (simp add: m'_def cur)
  have px: "(if temperature (snd n) > temperature (snd x) then cur else Some (fst x)) = Some (fst x')"
    by (simp add: x'_def cur)
  from Cons.IH[OF tl sm sx] obtain mp xp where
    "find_min_max h (next c) cur (Some (fst m'))
       (if temperature (snd n) < temperature (snd m) then prev else mp0) (Some (fst x'))
       (if temperature (snd n) > temperature (snd x) then prev else xp0) =
     Some (Inr (Some (fst (select_min m' ns)), mp, Some (fst (select_max x' ns)), xp))"
    by blast
  then have "find_min_max h cur prev (Some (fst m)) mp0 (Some (fst x)) xp0 =
     Some (Inr (Some (fst (select_min m' ns)), mp, Some (fst (select_max x' ns)), xp))"
    using pm px by (subst find_min_max.simps) (simp add: deref_def cur c cm cx dc dm dx del: if_split cong: if_cong)
  then show ?case by (auto simp: m'_def x'_def)
qed

lemma find_min_max_head:
  assumes nl: "node_list h p ns" and ne: "ns \<noteq> []"
  shows "\<exists>mp xp. find_min_max h p None p None p None =
     Some (Inr (Some (fst (select_min (hd ns) ns)), mp, Some (fst (select_max (hd ns) ns)), xp))"
proof -
  from ne nl have hd: "p = Some (fst (hd ns))" by (cases ns) auto
  have sh: "stored h (hd ns)" using node_list_stored[OF nl] ne by simp
  from find_min_max_nodes[OF nl sh sh, of None None None] show ?thesis
    unfolding hd by blast
qed

lemma sum_remaining_nodes:
  "node_list h cur ns \<Longrightarrow>
   sum_remaining h cur mn mx st sh ss k =
     Some (Inr (sum_from temperature st (remaining_nodes mn mx ns),
                sum_from humidity sh (remaining_nodes mn mx ns),
                sum_from salinity ss (remaining_nodes mn mx ns),
                k + int (length (remaining_nodes mn mx ns))))"
proof (induction ns arbitrary: cur st sh ss k)
  case Nil
  then show ?case by (subst sum_remaining.simps) (simp add: remaining_nodes_def)
next
  case (Cons n ns)
  from Cons.prems obtain c where cur: "cur = Some (fst n)" and c: "h (fst n) = Some c"
    and dc: "data c = snd n" and tl: "node_list h (next c) ns"
    by (auto split: option.splits)
  show ?case
    by (subst sum_remaining.simps)
       (simp add: cur c dc deref_def Cons.IH[OF tl] remaining_nodes_def)
qed

lemma sum_remaining_head:
  assumes nl: "node_list h p ns"
  shows "sum_remaining h p mn mx 0 0 0 0 =
     Some (Inr (sum_over temperature (remaining_nodes mn mx ns),
                sum_over humidity (remaining_nodes mn mx ns),
                sum_over salinity (remaining_nodes mn mx ns),
                int (length (remaining_nodes mn mx ns))))"
  using sum_remaining_nodes[OF nl, of mn mx 0 0 0 0] by (simp add: sum_over_def)

lemma clearList_loop_nodes:
  "node_list h p ns \<Longrightarrow>
   clearList_loop h p = Some (Inr (\<lambda>a. if a \<in> fst ` set ns then None else h a))"
proof (induction ns arbitrary: h p)
  case Nil
  then show ?case by (subst clearList_loop.simps) simp
next
  case (Cons n ns)
  from Cons.prems obtain c where p: "p = Some (fst n)" and c: "h (fst n) = Some c"
    and tl: "node_list h (next c) ns"
    by (auto split: option.splits)
  have "fst n \<notin> fst ` set ns" using node_list_distinct[OF Cons.prems] by simp
  with tl have "node_list (h(fst n := None)) (next c) ns" by (simp add: node_list_update_other)
  from Cons.IH[OF this]
  have run: "clearList_loop (h(fst n := None)) (next c) =
     Some (Inr (\<lambda>a. if a \<in> fst ` set ns then None else (h(fst n := None)) a))" .
  have same: "(\<lambda>a. if a \<in> fst ` set ns then None else (h(fst n := None)) a) =
     (\<lambda>a. if a \<in> fst ` set (n # ns) then None else h a)"
    by (rule ext) simp
  show ?case
    by (subst clearList_loop.simps) (simp only: p c option.case run same)
qed

lemma clearList_nodes:
  assumes "node_list (heap s) (dataListHead s) ns"
  shows "clearList s = returns (s\<lparr>heap := (\<lambda>a. if a \<in> fst ` set ns then None else heap s a),
                                   dataListHead := None, sampleCount := 0\<rparr>)"
  by (simp add: clearList_def clearList_loop_nodes[OF assms] and_then_def)

lemma clearList_result:
  assumes "clearList s = Some (Inr s')"
  shows "dataListHead s' = None \<and> sampleCount s' = 0"
  using assms by (auto simp: clearList_def and_then_def returns_def split: option.splits sum.splits)

subsection \<open>Properties of the selection\<close>

lemma select_min_mem: "select_min m ns \<in> set (m # ns)"
  by (induction ns arbitrary: m) auto

lemma select_max_mem: "select_max m ns \<in> set (m # ns)"
  by (induction ns arbitrary: m) auto

lemma select_min_le_init: "temp_of (select_min m ns) \<le> temp_of m"
proof (induction ns arbitrary: m)
  case Nil
  show ?case by simp
next
  case (Cons n ns)
  show ?case using Cons.IH[of n] Cons.IH[of m] by (simp split: if_splits)
qed

lemma select_max_ge_init: "temp_of m \<le> temp_of (select_max m ns)"
proof (induction ns arbitrary: m)
  case Nil
  show ?case by simp
next
  case (Cons n ns)
  show ?case using Cons.IH[of n] Cons.IH[of m] by (simp split: if_splits)
qed

lemma select_min_least: "n \<in> set (m # ns) \<Longrightarrow> temp_of (select_min m ns) \<le> temp_of n"
proof (induction ns arbitrary: m)
  case Nil
  then show ?case by simp
next
  case (Cons k ns)
  show ?case
  proof (cases "temp_of k < temp_of m")
    case True
    have "temp_of (select_min k ns) \<le> temp_of k" by (rule select_min_le_init)
    with True Cons.prems Cons.IH[of k] show ?thesis by auto
  next
    case False
    have "temp_of (select_min m ns) \<le> temp_of m" by (rule select_min_le_init)
    with False Cons.prems Cons.IH[of m] show ?thesis by auto
  qed
qed

lemma select_max_greatest: "n \<in> set (m # ns) \<Longrightarrow> temp_of n \<le> temp_of (select_max m ns)"
proof (induction ns arbitrary: m)
  case Nil
  then show ?case by simp
next
  case (Cons k ns)
  show ?case
  proof (cases "temp_of k > temp_of m")
    case True
    have "temp_of k \<le> temp_of (select_max k ns)" by (rule select_max_ge_init)
    with True Cons.prems Cons.IH[of k] show ?thesis by auto
  next
    case False
    have "temp_of m \<le> temp_of (select_max m ns)" by (rule select_max_ge_init)
    with False Cons.prems Cons.IH[of m] show ?thesis by auto
  qed
qed

lemma select_min_Min: "temp_of (select_min m ns) = Min (temp_of ` set (m # ns))"
proof (rule sym, rule Min_eqI)
  show "finite (temp_of ` set (m # ns))" by simp
  show "\<And>y. y \<in> temp_of ` set (m # ns) \<Longrightarrow> temp_of (select_min m ns) \<le> y"
    using select_min_least by blast
  show "temp_of (select_min m ns) \<in> temp_of ` set (m # ns)"
    using select_min_mem by blast
qed

lemma select_max_Max: "temp_of (select_max m ns) = Max (temp_of ` set (m # ns))"
proof (rule sym, rule Max_eqI)
  show "finite (temp_of ` set (m # ns))" by simp
  show "\<And>y. y \<in> temp_of ` set (m # ns) \<Longrightarrow> y \<le> temp_of (select_max m ns)"
    using select_max_greatest by blast
  show "temp_of (select_max m ns) \<in> temp_of ` set (m # ns)"
    using select_max_mem by blast
qed

lemma select_min_hd: "ns \<noteq> [] \<Longrightarrow> select_min (hd ns) ns = select_min (hd ns) (tl ns)"
  by (cases ns) simp_all

lemma select_max_hd: "ns \<noteq> [] \<Longrightarrow> select_max (hd ns) ns = select_max (hd ns) (tl ns)"
  by (cases ns) simp_all

lemma select_min_in: "ns \<noteq> [] \<Longrightarrow> select_min (hd ns) ns \<in> set ns"
  using select_min_mem[of "hd ns" "tl ns"] by (simp add: select_min_hd)

lemma select_max_in: "ns \<noteq> [] \<Longrightarrow> select_max (hd ns) ns \<in> set ns"
  using select_max_mem[of "hd ns" "tl ns"] by (simp add: select_max_hd)

lemma select_min_unique:
  assumes "nmin \<in> set ns" "\<forall>n\<in>set ns. n \<noteq> nmin \<longrightarrow> temp_of nmin < temp_of n"
  shows "select_min (hd ns) ns = nmin"
proof (rule ccontr)
  assume neq: "select_min (hd ns) ns \<noteq> nmin"
  from assms(1) have ne: "ns \<noteq> []" by auto
  then have ns: "hd ns # tl ns = ns" by simp
  have "select_min (hd ns) ns \<in> set ns" using ne by (rule select_min_in)
  with assms(2) neq have lt: "temp_of nmin < temp_of (select_min (hd ns) ns)" by blast
  have "nmin \<in> set (hd ns # tl ns)" using assms(1) ns by simp
  then have "temp_of (select_min (hd ns) (tl ns)) \<le> temp_of nmin" by (rule select_min_least)
  with lt show False using select_min_hd[OF ne] by simp
qed

lemma select_max_unique:
  assumes "nmax \<in> set ns" "\<forall>n\<in>set ns. n \<noteq> nmax \<longrightarrow> temp_of n < temp_of nmax"
  shows "select_max (hd ns) ns = nmax"
proof (rule ccontr)
  assume neq: "select_max (hd ns) ns \<noteq> nmax"
  from assms(1) have ne: "ns \<noteq> []" by auto
  then have ns: "hd ns # tl ns = ns" by simp
  have "select_max (hd ns) ns \<in> set ns" using ne by (rule select_max_in)
  with assms(2) neq have lt: "temp_of (select_max (hd ns) ns) < temp_of nmax" by blast
  have "nmax \<in> set (hd ns # tl ns)" using assms(1) ns by simp
  then have "temp_of nmax \<le> temp_of (select_max (hd ns) (tl ns))" by (rule select_max_greatest)
  with lt show False using select_max_hd[OF ne] by simp
qed

lemma select_min_stays: "\<forall>n\<in>set ns. \<not> temp_of n < temp_of m \<Longrightarrow> select_min m ns = m"
  by (induction ns) auto

lemma select_max_stays: "\<forall>n\<in>set ns. \<not> temp_of n > temp_of m \<Longrightarrow> select_max m ns = m"
  by (induction ns) auto

lemma same_node_all_equal:
  assumes ne: "ns \<noteq> []" and same: "select_min (hd ns) ns = select_max (hd ns) ns"
  shows "\<forall>n\<in>set ns. temp_of n = temp_of (hd ns)"
proof
  fix n assume n: "n \<in> set ns"
  from ne have ns: "hd ns # tl ns = ns" by simp
  have hd: "hd ns \<in> set (hd ns # tl ns)" by simp
  from n ns have n': "n \<in> set (hd ns # tl ns)" by simp
  have "temp_of (select_min (hd ns) (tl ns)) \<le> temp_of n" using n' by (rule select_min_least)
  moreover have "temp_of n \<le> temp_of (select_max (hd ns) (tl ns))" using n' by (rule select_max_greatest)
  moreover have "temp_of (select_min (hd ns) (tl ns)) \<le> temp_of (hd ns)" using hd by (rule select_min_least)
  moreover have "temp_of (hd ns) \<le> temp_of (select_max (hd ns) (tl ns))" using hd by (rule select_max_greatest)
  moreover have "select_min (hd ns) (tl ns) = select_max (hd ns) (tl ns)"
    using same select_min_hd[OF ne] select_max_hd[OF ne] by simp
  ultimately show "temp_of n = temp_of (hd ns)" by simp
qed


subsection \<open>The first node with the extreme temperature\<close>

text \<open>Met first wins: the selected node is the first whose temperature is the extreme one.\<close>

lemma select_min_first:
  "find (\<lambda>n. temp_of n \<le> t) (m # ns) = Some (select_min m ns)" if "t = temp_of (select_min m ns)"
  using that
proof (induction ns arbitrary: m)
  case Nil
  then show ?case by simp
next
  case (Cons k ns)
  show ?case
  proof (cases "temp_of k < temp_of m")
    case True
    with Cons.prems have t: "t = temp_of (select_min k ns)" by simp
    have "t \<le> temp_of k" unfolding t by (rule select_min_le_init)
    with True have "\<not> temp_of m \<le> t" by simp
    with Cons.IH[OF t] True show ?thesis by simp
  next
    case False
    with Cons.prems have t: "t = temp_of (select_min m ns)" by simp
    have le: "t \<le> temp_of m" unfolding t by (rule select_min_le_init)
    show ?thesis
    proof (cases "temp_of m \<le> t")
      case True
      with Cons.IH[OF t] False show ?thesis by simp
    next
      case m: False
      with False have "\<not> temp_of k \<le> t" by simp
      with Cons.IH[OF t] False m show ?thesis by simp
    qed
  qed
qed

lemma select_max_first:
  "find (\<lambda>n. t \<le> temp_of n) (m # ns) = Some (select_max m ns)" if "t = temp_of (select_max m ns)"
  using that
proof (induction ns arbitrary: m)
  case Nil
  then show ?case by simp
next
  case (Cons k ns)
  show ?case
  proof (cases "temp_of k > temp_of m")
    case True
    with Cons.prems have t: "t = temp_of (select_max k ns)" by simp
    have "temp_of k \<le> t" unfolding t by (rule select_max_ge_init)
    with True have "\<not> t \<le> temp_of m" by simp
    with Cons.IH[OF t] True show ?thesis by simp
  next
    case False
    with Cons.prems have t: "t = temp_of (select_max m ns)" by simp
    have le: "temp_of m \<le> t" unfolding t by (rule select_max_ge_init)
    show ?thesis
    proof (cases "t \<le> temp_of m")
      case True
      with Cons.IH[OF t] False show ?thesis by simp
    next
      case m: False
      with False have "\<not> t \<le> temp_of k" by simp
      with Cons.IH[OF t] False m show ?thesis by simp
    qed
  qed
qed

lemma find_coldest:
  assumes "ns \<noteq> []"
  shows "find (\<lambda>n. temp_of n = Min (temp_of ` set ns)) ns = Some (select_min (hd ns) ns)"
proof -
  from assms have ns: "hd ns # tl ns = ns" by simp
  define t where "t = temp_of (select_min (hd ns) (tl ns))"
  have t: "t = Min (temp_of ` set ns)" unfolding t_def using select_min_Min[of "hd ns" "tl ns"] ns by simp
  have "find (\<lambda>n. temp_of n \<le> t) (hd ns # tl ns) = Some (select_min (hd ns) (tl ns))"
    using t_def by (rule select_min_first)
  then have "find (\<lambda>n. temp_of n \<le> t) ns = Some (select_min (hd ns) ns)"
    using ns select_min_hd[OF assms] by simp
  moreover have "find (\<lambda>n. temp_of n = t) ns = find (\<lambda>n. temp_of n \<le> t) ns"
  proof (rule find_cong[OF refl])
    fix n assume "n \<in> set ns"
    then have "n \<in> set (hd ns # tl ns)" using ns by simp
    then have "t \<le> temp_of n" unfolding t_def by (rule select_min_least)
    then show "(temp_of n = t) = (temp_of n \<le> t)" by auto
  qed
  ultimately show ?thesis using t by simp
qed

lemma find_warmest:
  assumes "ns \<noteq> []"
  shows "find (\<lambda>n. temp_of n = Max (temp_of ` set ns)) ns = Some (select_max (hd ns) ns)"
proof -
  from assms have ns: "hd ns # tl ns = ns" by simp
  define t where "t = temp_of (select_max (hd ns) (tl ns))"
  have t: "t = Max (temp_of ` set ns)" unfolding t_def using select_max_Max[of "hd ns" "tl ns"] ns by simp
  have "find (\<lambda>n. t \<le> temp_of n) (hd ns # tl ns) = Some (select_max (hd ns) (tl ns))"
    using t_def by (rule select_max_first)
  then have "find (\<lambda>n. t \<le> temp_of n) ns = Some (select_max (hd ns) ns)"
    using ns select_max_hd[OF assms] by simp
  moreover have "find (\<lambda>n. temp_of n = t) ns = find (\<lambda>n. t \<le> temp_of n) ns"
  proof (rule find_cong[OF refl])
    fix n assume "n \<in> set ns"
    then have "n \<in> set (hd ns # tl ns)" using ns by simp
    then have "temp_of n \<le> t" unfolding t_def by (rule select_max_greatest)
    then show "(temp_of n = t) = (t \<le> temp_of n)" by auto
  qed
  ultimately show ?thesis using t by simp
qed

subsection \<open>What is left after the exclusion\<close>

lemma remaining_nodes_filter:
  assumes "node_list h p ns" "a \<in> set ns" "b \<in> set ns"
  shows "remaining_nodes (Some (fst a)) (Some (fst b)) ns = filter (\<lambda>n. n \<noteq> a \<and> n \<noteq> b) ns"
  unfolding remaining_nodes_def
  by (rule filter_cong) (use same_address[OF assms(1)] assms(2,3) in auto)

lemma length_filter_two:
  assumes "distinct ns" "a \<in> set ns" "b \<in> set ns"
  shows "length (filter (\<lambda>n. n \<noteq> a \<and> n \<noteq> b) ns) = length ns - (if a = b then 1 else 2)"
proof -
  have "length (filter (\<lambda>n. n \<noteq> a \<and> n \<noteq> b) ns) = card ({n. n \<noteq> a \<and> n \<noteq> b} \<inter> set ns)"
    using assms(1) by (rule distinct_length_filter)
  also have "{n. n \<noteq> a \<and> n \<noteq> b} \<inter> set ns = set ns - {a, b}" by auto
  also have "card (set ns - {a, b}) = card (set ns) - card {a, b}"
    using assms(2,3) by (intro card_Diff_subset) auto
  also have "card (set ns) = length ns" using assms(1) by (rule distinct_card)
  also have "card {a, b} = (if a = b then 1 else 2)" by simp
  finally show ?thesis .
qed

lemma remove_one_filter:
  assumes "distinct ns" "a \<in> set ns"
  shows "filter (\<lambda>n. n \<noteq> a \<and> n \<noteq> a) ns = remove1 a ns"
  using assms(1) by (simp add: distinct_remove1_removeAll removeAll_filter_not_eq eq_commute)

lemma remaining_count:
  assumes nl: "node_list h p ns" and ne: "ns \<noteq> []"
  shows "length (remaining_nodes (Some (fst (select_min (hd ns) ns)))
                   (Some (fst (select_max (hd ns) ns))) ns) =
         length ns - (if select_min (hd ns) ns = select_max (hd ns) ns then 1 else 2)"
  using remaining_nodes_filter[OF nl select_min_in[OF ne] select_max_in[OF ne]]
    length_filter_two[OF node_list_distinct_nodes[OF nl] select_min_in[OF ne] select_max_in[OF ne]]
  by simp

lemma extremes_differ:
  assumes "2 \<le> length ns" "distinct ns" "nmin \<in> set ns"
    "\<forall>n\<in>set ns. n \<noteq> nmin \<longrightarrow> temp_of nmin < temp_of n"
    "nmax \<in> set ns" "\<forall>n\<in>set ns. n \<noteq> nmax \<longrightarrow> temp_of n < temp_of nmax"
  shows "temp_of nmin < temp_of nmax"
proof -
  have "\<exists>n\<in>set ns. n \<noteq> nmin"
  proof (rule ccontr)
    assume "\<not> (\<exists>n\<in>set ns. n \<noteq> nmin)"
    then have "set ns \<subseteq> {nmin}" by auto
    then have "card (set ns) \<le> 1" using card_mono[of "{nmin}" "set ns"] by simp
    with assms(1,2) show False by (simp add: distinct_card)
  qed
  then obtain n where n: "n \<in> set ns" "n \<noteq> nmin" by blast
  with assms(4) have lt: "temp_of nmin < temp_of n" by blast
  show ?thesis
  proof (cases "n = nmax")
    case True
    with lt show ?thesis by simp
  next
    case False
    with assms(6) n have "temp_of n < temp_of nmax" by blast
    with lt show ?thesis by simp
  qed
qed

subsection \<open>The processing step on a list in the heap\<close>

lemma emit_frame:
  "heap (emit out s) = heap s" "dataListHead (emit out s) = dataListHead s"
  "sampleCount (emit out s) = sampleCount s" "lastSampleTime (emit out s) = lastSampleTime s"
  "serial (emit out s) = serial s @ out"
  by (simp_all add: emit_def)

lemma process_nodes:
  assumes cnt: "sampleCount s = SAMPLES_PER_CYCLE"
    and nl: "node_list (heap s) (dataListHead s) ns"
    and ne: "ns \<noteq> []"
  shows "processAndReportData s =
    (if remaining_nodes (Some (fst (select_min (hd ns) ns))) (Some (fst (select_max (hd ns) ns))) ns = []
     then faults DivisionByZero
     else returns (emit (report_of (select_min (hd ns) ns) (select_max (hd ns) ns)
            (remaining_nodes (Some (fst (select_min (hd ns) ns)))
               (Some (fst (select_max (hd ns) ns))) ns)) s))"
proof -
  define nmin where "nmin = select_min (hd ns) ns"
  define nmax where "nmax = select_max (hd ns) ns"
  define rest where "rest = remaining_nodes (Some (fst nmin)) (Some (fst nmax)) ns"
  from ne nl have hd: "dataListHead s = Some (fst (hd ns))" by (cases ns) auto
  have sh: "stored (heap s) (hd ns)" using node_list_stored[OF nl] ne by simp
  from find_min_max_nodes[OF nl sh sh, of None None None] obtain mp xp where
    scan: "find_min_max (heap s) (dataListHead s) None (dataListHead s) None (dataListHead s) None =
       Some (Inr (Some (fst nmin), mp, Some (fst nmax), xp))"
    unfolding hd nmin_def nmax_def by blast
  have "stored (heap s) nmin" unfolding nmin_def
    using node_list_stored[OF nl] select_min_in[OF ne] by blast
  then obtain cmin where cmin: "heap s (fst nmin) = Some cmin" "data cmin = snd nmin"
    by (auto simp: stored_def split: option.splits)
  have "stored (heap s) nmax" unfolding nmax_def
    using node_list_stored[OF nl] select_max_in[OF ne] by blast
  then obtain cmax where cmax: "heap s (fst nmax) = Some cmax" "data cmax = snd nmax"
    by (auto simp: stored_def split: option.splits)
  have sums: "sum_remaining (heap s) (dataListHead s) (Some (fst nmin)) (Some (fst nmax)) 0 0 0 0 =
     Some (Inr (sum_over temperature rest, sum_over humidity rest, sum_over salinity rest,
                int (length rest)))"
    using sum_remaining_head[OF nl, of "Some (fst nmin)" "Some (fst nmax)"]
    by (simp add: rest_def)
  have "processAndReportData s =
    (if rest = [] then faults DivisionByZero else returns (emit (report_of nmin nmax rest) s))"
    unfolding processAndReportData_def
    by (simp add: cnt scan and_then_def deref_def cmin cmax emit_def sums report_of_def mean_def
          Let_def)
  then show ?thesis by (simp add: nmin_def nmax_def rest_def)
qed

lemma process_sixteen:
  assumes cnt: "sampleCount s = 16" and nl: "node_list (heap s) (dataListHead s) ns"
    and len: "length ns = 16"
  shows "processAndReportData s =
    Some (Inr (emit (report_of (select_min (hd ns) ns) (select_max (hd ns) ns)
            (remaining_nodes (Some (fst (select_min (hd ns) ns)))
               (Some (fst (select_max (hd ns) ns))) ns)) s))"
    and "remaining_nodes (Some (fst (select_min (hd ns) ns)))
               (Some (fst (select_max (hd ns) ns))) ns \<noteq> []"
proof -
  from len have ne: "ns \<noteq> []" by auto
  have "length (remaining_nodes (Some (fst (select_min (hd ns) ns)))
                  (Some (fst (select_max (hd ns) ns))) ns) \<noteq> 0"
    using remaining_count[OF nl ne] len by (simp split: if_splits)
  then show r: "remaining_nodes (Some (fst (select_min (hd ns) ns)))
               (Some (fst (select_max (hd ns) ns))) ns \<noteq> []"
    by simp
  with process_nodes[OF _ nl ne] cnt
  show "processAndReportData s =
    Some (Inr (emit (report_of (select_min (hd ns) ns) (select_max (hd ns) ns)
            (remaining_nodes (Some (fst (select_min (hd ns) ns)))
               (Some (fst (select_max (hd ns) ns))) ns)) s))"
    by (simp add: SAMPLES_PER_CYCLE_def returns_def)
qed

lemma processAndReportData_frame:
  assumes "processAndReportData s = Some (Inr s')"
  shows "\<exists>out. s' = emit out s"
proof (cases "sampleCount s \<noteq> SAMPLES_PER_CYCLE")
  case True
  with assms have "s' = s" by (simp add: processAndReportData_def returns_def)
  then have "s' = emit [] s" by (simp add: emit_def)
  then show ?thesis by blast
next
  case False
  with assms show ?thesis
    unfolding processAndReportData_def and_then_def returns_def faults_def Let_def
    by (auto simp: emit_def split: option.splits sum.splits prod.splits if_splits)
qed

lemma processAndReportData_returns_on_list:
  assumes nl: "node_list (heap s) (dataListHead s) ns"
    and long: "sampleCount s = 16 \<longrightarrow> 3 \<le> length ns"
  shows "\<exists>out. processAndReportData s = Some (Inr (emit out s))"
proof (cases "sampleCount s = 16")
  case False
  then have "processAndReportData s = Some (Inr (emit [] s))"
    by (simp add: processAndReportData_def SAMPLES_PER_CYCLE_def returns_def emit_def)
  then show ?thesis by blast
next
  case True
  with long have len: "3 \<le> length ns" by simp
  then have ne: "ns \<noteq> []" by auto
  have "length (remaining_nodes (Some (fst (select_min (hd ns) ns)))
                  (Some (fst (select_max (hd ns) ns))) ns) \<noteq> 0"
    using remaining_count[OF nl ne] len by (simp split: if_splits)
  then have "remaining_nodes (Some (fst (select_min (hd ns) ns)))
                  (Some (fst (select_max (hd ns) ns))) ns \<noteq> []"
    by simp
  with process_nodes[OF _ nl ne] True
  have "processAndReportData s =
      Some (Inr (emit (report_of (select_min (hd ns) ns) (select_max (hd ns) ns)
        (remaining_nodes (Some (fst (select_min (hd ns) ns)))
           (Some (fst (select_max (hd ns) ns))) ns)) s))"
    by (simp add: SAMPLES_PER_CYCLE_def returns_def)
  then show ?thesis by blast
qed

lemma processAndReportData_returns:
  assumes nl: "node_list (heap s) (dataListHead s) ns" and cnt: "sampleCount s = int (length ns)"
  shows "\<exists>out. processAndReportData s = Some (Inr (emit out s))"
  using nl
proof (rule processAndReportData_returns_on_list)
  show "sampleCount s = 16 \<longrightarrow> 3 \<le> length ns" using cnt by auto
qed

subsection \<open>Permuting the samples\<close>





subsection \<open>The sampler\<close>

lemma smod_nonneg: "0 \<le> r \<Longrightarrow> 0 < k \<Longrightarrow> r smod k = r mod k" for r k :: int
  by (simp add: smod_int_alt_def sgn_if)

lemma round_half_even_ge: "real_of_int N \<le> q \<Longrightarrow> N \<le> round_half_even q"
proof -
  assume "real_of_int N \<le> q"
  then have "N \<le> \<lfloor>q\<rfloor>" by (simp add: le_floor_iff)
  then show ?thesis by (simp add: round_half_even_def Let_def)
qed

lemma round_half_even_le: "q \<le> real_of_int N \<Longrightarrow> round_half_even q \<le> N"
proof -
  assume q: "q \<le> real_of_int N"
  then have f: "\<lfloor>q\<rfloor> \<le> N" by (simp add: floor_le_iff)
  show ?thesis
  proof (cases "q - of_int \<lfloor>q\<rfloor> < 1 / 2")
    case True
    with f show ?thesis by (simp add: round_half_even_def Let_def)
  next
    case False
    then have "real_of_int \<lfloor>q\<rfloor> < q" by simp
    with q have "real_of_int \<lfloor>q\<rfloor> < real_of_int N" by simp
    then have "\<lfloor>q\<rfloor> + 1 \<le> N" by simp
    with f show ?thesis by (simp add: round_half_even_def Let_def)
  qed
qed

lemma binary_exponent_le:
  assumes "\<bar>x\<bar> < 2 ^ w" "0 < w"
  shows "binary_exponent x \<le> int w - 1"
proof (cases "1 \<le> \<bar>x\<bar>")
  case True
  have "\<lfloor>\<bar>x\<bar>\<rfloor> < 2 ^ w" using assms(1) by (simp add: floor_less_iff)
  then have "nat \<lfloor>\<bar>x\<bar>\<rfloor> < 2 ^ w" by (simp add: nat_less_iff)
  then have "floorlog 2 (nat \<lfloor>\<bar>x\<bar>\<rfloor>) \<le> w" by (intro floorlog_leI) simp_all
  with True show ?thesis by (simp add: binary_exponent_def)
next
  case False
  then show ?thesis using assms(2) by (simp add: binary_exponent_def)
qed

text \<open>Rounding keeps a number between two halves of integers, when the number is small enough
  for the spacing of its neighbours to divide one half.\<close>

lemma to_binary_between:
  assumes small: "\<bar>x\<bar> < 2 ^ (p - 1)" and p: "2 \<le> p" and emin: "emin \<le> 0"
    and lo: "real_of_int a / 2 \<le> x" and hi: "x \<le> real_of_int b / 2"
  shows "real_of_int a / 2 \<le> to_binary p emin x \<and> to_binary p emin x \<le> real_of_int b / 2"
proof (cases "x = 0")
  case True
  with lo hi show ?thesis by (simp add: to_binary_def)
next
  case False
  define k where "k = max (binary_exponent x) emin - int p + 1"
  have "binary_exponent x \<le> int (p - 1) - 1" using small p by (intro binary_exponent_le) simp_all
  then have k: "k \<le> - 1" unfolding k_def using emin p by simp
  define m where "m = nat (- k) - 1"
  have m: "nat (- k) = Suc m" unfolding m_def using k by simp
  have ulp: "two_to k = 1 / 2 ^ Suc m" using k m by (simp add: two_to_def)
  have res: "to_binary p emin x = real_of_int (round_half_even (x * 2 ^ Suc m)) / 2 ^ Suc m"
    using False by (simp add: to_binary_def Let_def k_def[symmetric] ulp)
  have "real_of_int (a * 2 ^ m) \<le> x * 2 ^ Suc m"
  proof -
    have "real_of_int a / 2 * 2 ^ Suc m \<le> x * 2 ^ Suc m"
      using lo by (intro mult_right_mono) simp_all
    then show ?thesis by simp
  qed
  then have "a * 2 ^ m \<le> round_half_even (x * 2 ^ Suc m)" by (rule round_half_even_ge)
  then have "real_of_int (a * 2 ^ m) \<le> real_of_int (round_half_even (x * 2 ^ Suc m))"
    by (simp only: of_int_le_iff)
  then have "real_of_int (a * 2 ^ m) / 2 ^ Suc m \<le>
      real_of_int (round_half_even (x * 2 ^ Suc m)) / 2 ^ Suc m"
    by (intro divide_right_mono) simp_all
  then have low: "real_of_int a / 2 \<le> to_binary p emin x" unfolding res by simp
  have "x * 2 ^ Suc m \<le> real_of_int (b * 2 ^ m)"
  proof -
    have "x * 2 ^ Suc m \<le> real_of_int b / 2 * 2 ^ Suc m"
      using hi by (intro mult_right_mono) simp_all
    then show ?thesis by simp
  qed
  then have "round_half_even (x * 2 ^ Suc m) \<le> b * 2 ^ m" by (rule round_half_even_le)
  then have "real_of_int (round_half_even (x * 2 ^ Suc m)) \<le> real_of_int (b * 2 ^ m)"
    by (simp only: of_int_le_iff)
  then have "real_of_int (round_half_even (x * 2 ^ Suc m)) / 2 ^ Suc m \<le>
      real_of_int (b * 2 ^ m) / 2 ^ Suc m"
    by (intro divide_right_mono) simp_all
  then have high: "to_binary p emin x \<le> real_of_int b / 2" unfolding res by simp
  from low high show ?thesis ..
qed

text \<open>A reading \<open>c + (r % k) / 10.0\<close> lies between \<open>c\<close> and \<open>c + k / 10\<close> after its roundings,
  for a constant \<open>c\<close> and a bound \<open>c + k / 10\<close> that are halves of integers below 128.\<close>

lemmas float_eval = to_float_def to_double_def to_binary_def binary_exponent_def two_to_def
  round_half_even_def compute_floorlog float_add_def float_div_int_def Let_def

lemma reading_between:
  assumes r: "0 \<le> r" and k: "0 < k" and a: "0 \<le> a"
    and top: "real_of_int k / 10 = real_of_int b / 2" "a + b \<le> 255"
  shows "real_of_int a / 2 \<le>
           to_float (to_double (real_of_int a / 2 + to_double (real_of_int (r smod k) / 10))) \<and>
         to_float (to_double (real_of_int a / 2 + to_double (real_of_int (r smod k) / 10))) \<le>
           real_of_int (a + b) / 2"
proof -
  define q where "q = real_of_int (r smod k) / 10"
  have "0 \<le> r mod k" using k by simp
  moreover have "r mod k \<le> k" using pos_mod_bound[OF k, of r] by linarith
  ultimately have "0 \<le> real_of_int (r mod k)" "real_of_int (r mod k) \<le> real_of_int k"
    by simp_all
  then have q: "real_of_int 0 / 2 \<le> q" "q \<le> real_of_int b / 2"
    unfolding q_def top(1)[symmetric] using r k by (simp_all add: smod_nonneg)
  have b: "0 \<le> b" "b \<le> 255"
  proof -
    have "0 \<le> real_of_int b / 2" using q by simp
    then show "0 \<le> b" by simp
    then show "b \<le> 255" using a top(2) by simp
  qed
  have qs: "\<bar>q\<bar> < 2 ^ (53 - 1)"
  proof -
    have "\<bar>q\<bar> \<le> real_of_int b / 2" using q by simp
    also have "\<dots> \<le> 255 / 2" using b by simp
    also have "\<dots> < (2::real) ^ (53 - 1)" by simp
    finally show ?thesis .
  qed
  define y where "y = to_double q"
  have y: "0 \<le> y" "y \<le> real_of_int b / 2"
    using to_binary_between[OF qs _ _ q] by (simp_all add: y_def to_double_def)
  have z1: "real_of_int a / 2 \<le> real_of_int a / 2 + y"
    "real_of_int a / 2 + y \<le> real_of_int (a + b) / 2"
    using y by (simp_all add: add_divide_distrib)
  have zs: "\<bar>real_of_int a / 2 + y\<bar> < 2 ^ (53 - 1)"
  proof -
    have "0 \<le> real_of_int a / 2 + y" using a y by simp
    then have "\<bar>real_of_int a / 2 + y\<bar> \<le> real_of_int (a + b) / 2" using z1 by simp
    also have "\<dots> \<le> 255 / 2" using top(2) by simp
    also have "\<dots> < (2::real) ^ (53 - 1)" by simp
    finally show ?thesis .
  qed
  define z where "z = to_double (real_of_int a / 2 + y)"
  have z: "real_of_int a / 2 \<le> z" "z \<le> real_of_int (a + b) / 2"
    using to_binary_between[OF zs _ _ z1] by (simp_all add: z_def to_double_def)
  have fs: "\<bar>z\<bar> < 2 ^ (24 - 1)"
  proof -
    have "0 \<le> z" using a z by simp
    then have "\<bar>z\<bar> \<le> real_of_int (a + b) / 2" using z by simp
    also have "\<dots> \<le> 255 / 2" using top(2) by simp
    also have "\<dots> < (2::real) ^ (24 - 1)" by simp
    finally show ?thesis .
  qed
  have "real_of_int a / 2 \<le> to_float z \<and> to_float z \<le> real_of_int (a + b) / 2"
    using to_binary_between[OF fs _ _ z] by (simp add: to_float_def)
  then show ?thesis unfolding z_def y_def q_def .
qed

lemma in_range_sampled:
  assumes "0 \<le> r1" "0 \<le> r2" "0 \<le> r3"
  shows "in_range (snd (sampled (r1, r2, r3, a)))"
  using reading_between[OF assms(1), of 200 30 40] reading_between[OF assms(2), of 600 60 120]
    reading_between[OF assms(3), of 35 1 7]
  by (simp add: in_range_def sampled_def readSimulatedTemperature_def
        readSimulatedHumidity_def readSimulatedSalinity_def)

lemma collectSample_nodes:
  assumes "node_list (heap s) (dataListHead s) ns" "heap s a = None"
  shows "\<exists>s'. collectSample r1 r2 r3 (Some a) s = Inr s' \<and>
           node_list (heap s') (dataListHead s') (sampled (r1, r2, r3, a) # ns) \<and>
           sampleCount s' = sampleCount s + 1 \<and>
           lastSampleTime s' = lastSampleTime s \<and> serial s' = serial s \<and>
           (\<forall>b. b \<noteq> a \<longrightarrow> heap s' b = heap s b)"
  using node_list_update_fresh[OF assms(2,1)]
  by (simp add: collectSample_def sampled_def)

lemma collect_samples_nodes:
  assumes "reachable s" "usable_draws s qs" "node_list (heap s) (dataListHead s) ns"
  shows "\<exists>s'. collect_samples qs s = Inr s' \<and> reachable s' \<and>
           node_list (heap s') (dataListHead s') (rev (map sampled qs) @ ns) \<and>
           sampleCount s' = sampleCount s + int (length qs) \<and>
           lastSampleTime s' = lastSampleTime s \<and> serial s' = serial s"
  using assms
proof (induction qs arbitrary: s ns)
  case Nil
  then show ?case by simp
next
  case (Cons q qs)
  obtain r1 r2 r3 a where q: "q = (r1, r2, r3, a)" by (cases q) auto
  from Cons.prems(2) have fresh: "heap s a = None" and nn: "0 \<le> r1" "0 \<le> r2" "0 \<le> r3"
    and a: "a \<notin> (\<lambda>q. snd (snd (snd q))) ` set qs"
    and rest: "usable_draws s qs"
    by (auto simp: usable_draws_def q)
  from collectSample_nodes[OF Cons.prems(3) fresh, of r1 r2 r3] obtain s1 where
    s1: "collectSample r1 r2 r3 (Some a) s = Inr s1"
    and nl1: "node_list (heap s1) (dataListHead s1) (sampled (r1, r2, r3, a) # ns)"
    and c1: "sampleCount s1 = sampleCount s + 1"
    and t1: "lastSampleTime s1 = lastSampleTime s" "serial s1 = serial s"
    and h1: "\<forall>b. b \<noteq> a \<longrightarrow> heap s1 b = heap s b"
    by blast
  have r1: "reachable s1" using Cons.prems(1) fresh nn s1 by (rule reachable.collected)
  have u1: "usable_draws s1 qs"
    using rest a h1 unfolding usable_draws_def list_all_iff by (auto split: prod.splits) 
  from Cons.IH[OF r1 u1 nl1] obtain s' where
    "collect_samples qs s1 = Inr s'" "reachable s'"
    "node_list (heap s') (dataListHead s') (rev (map sampled qs) @ sampled (r1, r2, r3, a) # ns)"
    "sampleCount s' = sampleCount s1 + int (length qs)"
    "lastSampleTime s' = lastSampleTime s1" "serial s' = serial s1"
    by blast
  then show ?case using s1 c1 t1 by (simp add: q)
qed

lemma state_after_usable:
  assumes "usable_draws initial_state qs"
  shows "reachable (state_after qs)"
    and "node_list (heap (state_after qs)) (dataListHead (state_after qs)) (rev (map sampled qs))"
    and "sampleCount (state_after qs) = int (length qs)"
    and "serial (state_after qs) = []"
proof -
  have "node_list (heap initial_state) (dataListHead initial_state) []"
    by (simp add: initial_state_def)
  from collect_samples_nodes[OF reachable.start assms this] obtain s' where
    "collect_samples qs initial_state = Inr s'" "reachable s'"
    "node_list (heap s') (dataListHead s') (rev (map sampled qs))"
    "sampleCount s' = int (length qs)" "serial s' = []"
    by (auto simp: initial_state_def)
  then show "reachable (state_after qs)"
    and "node_list (heap (state_after qs)) (dataListHead (state_after qs)) (rev (map sampled qs))"
    and "sampleCount (state_after qs) = int (length qs)"
    and "serial (state_after qs) = []"
    by (simp_all add: state_after_def)
qed

subsection \<open>Reachable states are well formed, and the running sketch stays within them\<close>

text \<open>Between two calls of \<open>loop\<close> the counter is in 0..15, so the \<open>int\<close> it is kept in never
  overflows, whatever its width.\<close>

lemma reachable_well_formed: "reachable s \<Longrightarrow> \<exists>ns. well_formed s ns"
proof (induction rule: reachable.induct)
  case start
  have "well_formed initial_state []" by (simp add: well_formed_def initial_state_def)
  then show ?case by blast
next
  case (printed s xs)
  then show ?case by (auto simp: well_formed_def emit_def)
next
  case (stamped s t)
  then show ?case by (auto simp: well_formed_def)
next
  case (collected s a r1 r2 r3 s')
  from collected.IH obtain ns where wf: "well_formed s ns" by blast
  then have nl: "node_list (heap s) (dataListHead s) ns" by (simp add: well_formed_def)
  from collectSample_nodes[OF nl collected.hyps(2), of r1 r2 r3] collected.hyps(6)
  have "node_list (heap s') (dataListHead s') (sampled (r1, r2, r3, a) # ns)"
    and "sampleCount s' = sampleCount s + 1" by auto
  with wf in_range_sampled[OF collected.hyps(3,4,5), of a]
  have "well_formed s' (sampled (r1, r2, r3, a) # ns)" by (simp add: well_formed_def)
  then show ?case by blast
next
  case (processed s s')
  from processAndReportData_frame[OF processed.hyps(2)] obtain out where "s' = emit out s" by blast
  with processed.IH show ?case by (auto simp: well_formed_def emit_def)
next
  case (cleared s s')
  from clearList_result[OF cleared.hyps(2)] have "well_formed s' []" by (simp add: well_formed_def)
  then show ?case by blast
qed

lemma loop_cases:
  assumes "loop i s = Some (Inr s')"
  shows "s' = s \<or>
    (\<exists>a s1 out. new_Node i = Some a \<and>
       collectSample (rand_temperature i) (rand_humidity i) (rand_salinity i) (Some a)
         (s\<lparr>lastSampleTime := millis_stamp i\<rparr>) = Inr s1 \<and>
       (sampleCount s1 \<noteq> SAMPLES_PER_CYCLE \<and> s' = emit out s1 \<or>
        (\<exists>out2 s3 s4 out4. sampleCount s1 = SAMPLES_PER_CYCLE \<and>
           processAndReportData (emit out2 (emit out s1)) = Some (Inr s3) \<and>
           clearList s3 = Some (Inr s4) \<and> s' = emit out4 s4)))"
proof (cases "millis_test i - lastSampleTime s \<ge> SAMPLE_INTERVAL")
  case False
  with assms show ?thesis by (simp add: loop_def returns_def)
next
  case True
  show ?thesis
  proof (cases "new_Node i")
    case None
    with assms True show ?thesis by (simp add: loop_def collectSample_def faults_def)
  next
    case (Some a)
    obtain s1 where s1: "collectSample (rand_temperature i) (rand_humidity i) (rand_salinity i)
        (Some a) (s\<lparr>lastSampleTime := millis_stamp i\<rparr>) = Inr s1"
      by (simp add: collectSample_def)
    from assms True Some s1 obtain hd_node where
      hd: "deref (heap s1) (dataListHead s1) = Some hd_node"
      by (auto simp: loop_def faults_def split: option.splits)
    from assms True Some s1 hd
    have "(\<exists>out. sampleCount s1 \<noteq> SAMPLES_PER_CYCLE \<and> s' = emit out s1) \<or>
        (\<exists>out out2 s3 s4 out4. sampleCount s1 = SAMPLES_PER_CYCLE \<and>
           processAndReportData (emit out2 (emit out s1)) = Some (Inr s3) \<and>
           clearList s3 = Some (Inr s4) \<and> s' = emit out4 s4)"
      unfolding loop_def Let_def and_then_def returns_def faults_def
      by (simp add: emit_frame split: if_splits option.splits sum.splits) blast+
    with Some s1 show ?thesis by blast
  qed
qed

lemma loop_reachable:
  assumes r: "reachable s"
    and run: "loop i s = Some (Inr s')"
    and fresh: "\<forall>a. new_Node i = Some a \<longrightarrow> heap s a = None"
    and nn: "0 \<le> rand_temperature i" "0 \<le> rand_humidity i" "0 \<le> rand_salinity i"
  shows "reachable s'"
proof -
  from loop_cases[OF run] consider "s' = s"
    | a s1 out where "new_Node i = Some a"
        "collectSample (rand_temperature i) (rand_humidity i) (rand_salinity i) (Some a)
           (s\<lparr>lastSampleTime := millis_stamp i\<rparr>) = Inr s1"
        "s' = emit out s1"
    | a s1 out out2 s3 s4 out4 where "new_Node i = Some a"
        "collectSample (rand_temperature i) (rand_humidity i) (rand_salinity i) (Some a)
           (s\<lparr>lastSampleTime := millis_stamp i\<rparr>) = Inr s1"
        "processAndReportData (emit out2 (emit out s1)) = Some (Inr s3)"
        "clearList s3 = Some (Inr s4)" "s' = emit out4 s4"
    by blast
  then show ?thesis
  proof cases
    case 1
    with r show ?thesis by simp
  next
    case 2
    have r0: "reachable (s\<lparr>lastSampleTime := millis_stamp i\<rparr>)" using r by (rule reachable.stamped)
    have f0: "heap (s\<lparr>lastSampleTime := millis_stamp i\<rparr>) a = None" using fresh 2(1) by simp
    have "reachable s1" using r0 f0 nn 2(2) by (rule reachable.collected)
    then show ?thesis unfolding 2(3) by (rule reachable.printed)
  next
    case 3
    have r0: "reachable (s\<lparr>lastSampleTime := millis_stamp i\<rparr>)" using r by (rule reachable.stamped)
    have f0: "heap (s\<lparr>lastSampleTime := millis_stamp i\<rparr>) a = None" using fresh 3(1) by simp
    have "reachable s1" using r0 f0 nn 3(2) by (rule reachable.collected)
    then have "reachable (emit out2 (emit out s1))" by (intro reachable.printed)
    then have "reachable s3" using 3(3) by (rule reachable.processed)
    then have "reachable s4" using 3(4) by (rule reachable.cleared)
    then show ?thesis unfolding 3(5) by (rule reachable.printed)
  qed
qed

lemma running_reachable: "running s \<Longrightarrow> reachable s"
proof (induction rule: running.induct)
  case booted
  show ?case unfolding sketch_setup_def using reachable.start by (rule reachable.printed)
next
  case (looped s i s')
  from looped.IH looped.hyps(6,2,3,4,5) show ?case by (rule loop_reachable)
qed

lemma running_counter: "running s \<Longrightarrow> 0 \<le> sampleCount s \<and> sampleCount s < 16"
proof (induction rule: running.induct)
  case booted
  show ?case by (simp add: sketch_setup_def emit_frame initial_state_def)
next
  case (looped s i s')
  from loop_cases[OF looped.hyps(6)] show ?case
  proof (elim disjE exE conjE)
    assume "s' = s"
    with looped.IH show ?thesis by simp
  next
    fix a s1 out
    assume c: "collectSample (rand_temperature i) (rand_humidity i) (rand_salinity i) (Some a)
         (s\<lparr>lastSampleTime := millis_stamp i\<rparr>) = Inr s1"
      and n: "sampleCount s1 \<noteq> SAMPLES_PER_CYCLE" and s': "s' = emit out s1"
    from c have "sampleCount s1 = sampleCount s + 1" by (auto simp: collectSample_def)
    with n looped.IH s' show ?thesis by (simp add: emit_frame SAMPLES_PER_CYCLE_def)
  next
    fix a s1 out out2 s3 s4 out4
    assume "clearList s3 = Some (Inr s4)" and s': "s' = emit out4 s4"
    then show ?thesis using clearList_result by (simp add: emit_frame)
  qed
qed

subsection \<open>How far the rounding moves an average\<close>

text \<open>Below 2048 a \<open>float\<close> is at most 1/16384 away from the number it rounds. So a sum of
  fourteen or fifteen values between 0 and 90 is off by at most that much for each addition,
  and the mean the sketch reports is within 1/8192 of the arithmetic mean.\<close>

lemma round_half_even_near: "\<bar>real_of_int (round_half_even q) - q\<bar> \<le> 1 / 2"
proof -
  have a: "real_of_int \<lfloor>q\<rfloor> \<le> q" and b: "q < real_of_int \<lfloor>q\<rfloor> + 1" by linarith+
  show ?thesis
    using a b by (auto simp add: round_half_even_def Let_def abs_le_iff)
qed

lemma two_to_pos: "0 < two_to k"
  by (simp add: two_to_def)

lemma two_to_small: "k \<le> - 13 \<Longrightarrow> two_to k \<le> 1 / 8192"
proof -
  assume k: "k \<le> - 13"
  then have "13 \<le> nat (- k)" by simp
  then have "(2::real) ^ 13 \<le> 2 ^ nat (- k)" by (intro power_increasing) simp_all
  then have "1 / (2::real) ^ nat (- k) \<le> 1 / 2 ^ 13" by (intro divide_left_mono) simp_all
  moreover have "two_to k = 1 / 2 ^ nat (- k)" using k by (simp add: two_to_def)
  ultimately show ?thesis by simp
qed

lemma to_float_near:
  assumes "\<bar>x\<bar> < 2048"
  shows "\<bar>to_float x - x\<bar> \<le> 1 / 16384"
proof (cases "x = 0")
  case True
  then show ?thesis by (simp add: to_float_def to_binary_def)
next
  case False
  define k where "k = max (binary_exponent x) (- 126) - 23"
  have "\<bar>x\<bar> < 2 ^ 11" using assms by simp
  then have "binary_exponent x \<le> int 11 - 1" by (rule binary_exponent_le) simp
  then have k: "k \<le> - 13" unfolding k_def by simp
  define u where "u = two_to k"
  have u: "0 < u" "u \<le> 1 / 8192" unfolding u_def by (rule two_to_pos, rule two_to_small[OF k])
  have res: "to_float x = real_of_int (round_half_even (x / u)) * u"
    using False by (simp add: to_float_def to_binary_def Let_def k_def u_def)
  have "to_float x - x = (real_of_int (round_half_even (x / u)) - x / u) * u"
    unfolding res using u(1) by (simp add: algebra_simps)
  then have "\<bar>to_float x - x\<bar> = \<bar>real_of_int (round_half_even (x / u)) - x / u\<bar> * u"
    using u(1) by (simp add: abs_mult)
  also have "\<dots> \<le> 1 / 2 * u"
    using round_half_even_near[of "x / u"] u(1) by (intro mult_right_mono) simp_all
  also have "\<dots> \<le> 1 / 2 * (1 / 8192)" using u(2) by (intro mult_left_mono) simp_all
  finally show ?thesis by simp
qed

lemma sum_from_near:
  assumes "\<forall>n\<in>set ns. 0 \<le> f (snd n) \<and> f (snd n) \<le> 90"
    and "\<bar>acc\<bar> + real (length ns) * 91 < 2048"
  shows "\<bar>sum_from f acc ns - (acc + sum_list (map (\<lambda>n. f (snd n)) ns))\<bar> \<le> real (length ns) / 16384"
  using assms
proof (induction ns arbitrary: acc)
  case Nil
  then show ?case by simp
next
  case (Cons n ns)
  define acc' where "acc' = float_add acc (f (snd n))"
  from Cons.prems(1) have fn: "0 \<le> f (snd n)" "f (snd n) \<le> 90" by simp_all
  have small: "\<bar>acc + f (snd n)\<bar> < 2048" using Cons.prems(2) fn by (simp add: algebra_simps)
  then have near: "\<bar>acc' - (acc + f (snd n))\<bar> \<le> 1 / 16384"
    unfolding acc'_def float_add_def by (rule to_float_near)
  then have "\<bar>acc'\<bar> \<le> \<bar>acc\<bar> + 91" using fn by linarith
  then have b: "\<bar>acc'\<bar> + real (length ns) * 91 < 2048" using Cons.prems(2) by (simp add: algebra_simps)
  have r: "\<forall>n\<in>set ns. 0 \<le> f (snd n) \<and> f (snd n) \<le> 90" using Cons.prems(1) by simp
  have step: "sum_from f acc (n # ns) = sum_from f acc' ns" by (simp add: acc'_def)
  have ex: "sum_list (map (\<lambda>n. f (snd n)) (n # ns)) = f (snd n) + sum_list (map (\<lambda>n. f (snd n)) ns)"
    by simp
  have l: "real (length (n # ns)) / 16384 = real (length ns) / 16384 + 1 / 16384"
    by (simp add: add_divide_distrib)
  from Cons.IH[OF r b] near show ?case
    unfolding step ex l by linarith
qed

lemma mean_near:
  assumes r: "\<forall>n\<in>set ns. 0 \<le> f (snd n) \<and> f (snd n) \<le> 90"
    and len: "length ns = 14 \<or> length ns = 15"
  shows "\<bar>mean f ns - exact_mean f ns\<bar> \<le> 1 / 8192"
proof -
  define N :: real where "N = real (length ns)"
  define S where "S = sum_over f ns"
  define E where "E = sum_list (map (\<lambda>n. f (snd n)) ns)"
  have N: "N = 14 \<or> N = 15" unfolding N_def using len by auto
  have "to_float 14 = 14" "to_float 15 = 15" by (simp_all add: float_eval)
  then have tf: "to_float (real (length ns)) = N"
    using len unfolding N_def by (elim disjE) simp_all
  have "\<bar>0::real\<bar> + real (length ns) * 91 < 2048" using len by auto
  from sum_from_near[OF r this]
  have SE: "\<bar>S - E\<bar> \<le> N / 16384" unfolding S_def E_def N_def sum_over_def by simp
  have E0: "0 \<le> E" unfolding E_def using r by (intro sum_list_nonneg) auto
  have "E \<le> (\<Sum>n\<leftarrow>ns. 90)" unfolding E_def using r by (intro sum_list_mono) auto
  then have E1: "E \<le> 90 * N" by (simp add: sum_list_triv N_def)
  have Np: "0 < N" using N by auto
  have "\<bar>S\<bar> \<le> E + N / 16384" using SE E0 by linarith
  also have "\<dots> \<le> 91 * N" using E1 Np by simp
  finally have "\<bar>S\<bar> / N \<le> 91" using Np by (simp add: field_simps)
  then have "\<bar>S / N\<bar> < 2048" using Np by simp
  then have q: "\<bar>to_float (S / N) - S / N\<bar> \<le> 1 / 16384" by (rule to_float_near)
  have "\<bar>S / N - E / N\<bar> = \<bar>S - E\<bar> / N" using Np by (simp add: diff_divide_distrib[symmetric])
  also have "\<dots> \<le> (N / 16384) / N" using SE Np by (intro divide_right_mono) simp_all
  also have "\<dots> = 1 / 16384" using Np by simp
  finally have d: "\<bar>S / N - E / N\<bar> \<le> 1 / 16384" .
  have "mean f ns = to_float (S / N)"
    by (simp add: mean_def float_div_int_def tf S_def)
  moreover have "exact_mean f ns = E / N" by (simp add: exact_mean_def E_def N_def)
  ultimately show ?thesis using q d by linarith
qed

lemma means_near:
  assumes r: "list_all (\<lambda>n. in_range (snd n)) ns" and sub: "set rest \<subseteq> set ns"
    and len: "length rest = 14 \<or> length rest = 15"
  shows "\<bar>mean temperature rest - exact_mean temperature rest\<bar> \<le> 1 / 8192"
    and "\<bar>mean humidity rest - exact_mean humidity rest\<bar> \<le> 1 / 8192"
    and "\<bar>mean salinity rest - exact_mean salinity rest\<bar> \<le> 1 / 8192"
proof -
  have i: "in_range (snd n)" if "n \<in> set rest" for n
    using r sub that by (auto simp add: list_all_iff)
  have "\<forall>n\<in>set rest. 0 \<le> temperature (snd n) \<and> temperature (snd n) \<le> 90"
    using i by (fastforce simp add: in_range_def)
  then show "\<bar>mean temperature rest - exact_mean temperature rest\<bar> \<le> 1 / 8192"
    using len by (rule mean_near)
  have "\<forall>n\<in>set rest. 0 \<le> humidity (snd n) \<and> humidity (snd n) \<le> 90"
    using i by (fastforce simp add: in_range_def)
  then show "\<bar>mean humidity rest - exact_mean humidity rest\<bar> \<le> 1 / 8192"
    using len by (rule mean_near)
  have "\<forall>n\<in>set rest. 0 \<le> salinity (snd n) \<and> salinity (snd n) \<le> 90"
    using i by (fastforce simp add: in_range_def)
  then show "\<bar>mean salinity rest - exact_mean salinity rest\<bar> \<le> 1 / 8192"
    using len by (rule mean_near)
qed


subsection \<open>The example cycles\<close>

text \<open>The readings the draws of the examples give, the fact that each example can be drawn
  from the initial state, and the nodes it leaves in the list, head first.\<close>

lemma readings:
  "readSimulatedTemperature 0 = 15"
  "readSimulatedTemperature 1 = 7916749 / 524288"
  "readSimulatedTemperature 2 = 15938355 / 1048576"
  "readSimulatedTemperature 50 = 20"
  "readSimulatedTemperature 70 = 22"
  "readSimulatedTemperature 150 = 30"
  "readSimulatedHumidity 0 = 30"
  "readSimulatedHumidity 1 = 15781069 / 524288"
  "readSimulatedHumidity 140 = 44"
  "readSimulatedHumidity 299 = 7851213 / 131072"
  "readSimulatedHumidity 448 = 4902093 / 65536"
  "readSimulatedHumidity 590 = 89"
  "readSimulatedSalinity 0 = 1 / 2"
  "readSimulatedSalinity 1 = 5033165 / 8388608"
  "readSimulatedSalinity 5 = 1"
  by (simp_all add: readSimulatedTemperature_def readSimulatedHumidity_def
        readSimulatedSalinity_def smod_int_alt_def float_eval)

lemma usable_rounded_a: "usable_draws initial_state draws_rounded_a"
  by (simp add: usable_draws_def draws_rounded_a_def initial_state_def)

lemma nodes_rounded_a:
  "rev (map sampled draws_rounded_a) =
     [(15, \<lparr>temperature = 30, humidity = 30, salinity = 1\<rparr>),
      (14, \<lparr>temperature = 15938355 / 1048576, humidity = 7851213 / 131072, salinity = 5033165 / 8388608\<rparr>),
      (13, \<lparr>temperature = 15938355 / 1048576, humidity = 7851213 / 131072, salinity = 5033165 / 8388608\<rparr>),
      (12, \<lparr>temperature = 15938355 / 1048576, humidity = 7851213 / 131072, salinity = 5033165 / 8388608\<rparr>),
      (11, \<lparr>temperature = 15938355 / 1048576, humidity = 7851213 / 131072, salinity = 5033165 / 8388608\<rparr>),
      (10, \<lparr>temperature = 15938355 / 1048576, humidity = 7851213 / 131072, salinity = 5033165 / 8388608\<rparr>),
      (9, \<lparr>temperature = 15938355 / 1048576, humidity = 7851213 / 131072, salinity = 5033165 / 8388608\<rparr>),
      (8, \<lparr>temperature = 15938355 / 1048576, humidity = 7851213 / 131072, salinity = 5033165 / 8388608\<rparr>),
      (7, \<lparr>temperature = 7916749 / 524288, humidity = 15781069 / 524288, salinity = 1 / 2\<rparr>),
      (6, \<lparr>temperature = 7916749 / 524288, humidity = 15781069 / 524288, salinity = 1 / 2\<rparr>),
      (5, \<lparr>temperature = 7916749 / 524288, humidity = 15781069 / 524288, salinity = 1 / 2\<rparr>),
      (4, \<lparr>temperature = 7916749 / 524288, humidity = 15781069 / 524288, salinity = 1 / 2\<rparr>),
      (3, \<lparr>temperature = 7916749 / 524288, humidity = 15781069 / 524288, salinity = 1 / 2\<rparr>),
      (2, \<lparr>temperature = 7916749 / 524288, humidity = 15781069 / 524288, salinity = 1 / 2\<rparr>),
      (1, \<lparr>temperature = 7916749 / 524288, humidity = 15781069 / 524288, salinity = 1 / 2\<rparr>),
      (0, \<lparr>temperature = 15, humidity = 30, salinity = 1\<rparr>)]"
  by (simp add: draws_rounded_a_def sampled_def readings)

lemma usable_rounded_b: "usable_draws initial_state draws_rounded_b"
  by (simp add: usable_draws_def draws_rounded_b_def initial_state_def)

lemma nodes_rounded_b:
  "rev (map sampled draws_rounded_b) =
     [(15, \<lparr>temperature = 30, humidity = 30, salinity = 1\<rparr>),
      (14, \<lparr>temperature = 7916749 / 524288, humidity = 15781069 / 524288, salinity = 1 / 2\<rparr>),
      (13, \<lparr>temperature = 7916749 / 524288, humidity = 15781069 / 524288, salinity = 1 / 2\<rparr>),
      (12, \<lparr>temperature = 7916749 / 524288, humidity = 15781069 / 524288, salinity = 1 / 2\<rparr>),
      (11, \<lparr>temperature = 7916749 / 524288, humidity = 15781069 / 524288, salinity = 1 / 2\<rparr>),
      (10, \<lparr>temperature = 7916749 / 524288, humidity = 15781069 / 524288, salinity = 1 / 2\<rparr>),
      (9, \<lparr>temperature = 7916749 / 524288, humidity = 15781069 / 524288, salinity = 1 / 2\<rparr>),
      (8, \<lparr>temperature = 7916749 / 524288, humidity = 15781069 / 524288, salinity = 1 / 2\<rparr>),
      (7, \<lparr>temperature = 15938355 / 1048576, humidity = 7851213 / 131072, salinity = 5033165 / 8388608\<rparr>),
      (6, \<lparr>temperature = 15938355 / 1048576, humidity = 7851213 / 131072, salinity = 5033165 / 8388608\<rparr>),
      (5, \<lparr>temperature = 15938355 / 1048576, humidity = 7851213 / 131072, salinity = 5033165 / 8388608\<rparr>),
      (4, \<lparr>temperature = 15938355 / 1048576, humidity = 7851213 / 131072, salinity = 5033165 / 8388608\<rparr>),
      (3, \<lparr>temperature = 15938355 / 1048576, humidity = 7851213 / 131072, salinity = 5033165 / 8388608\<rparr>),
      (2, \<lparr>temperature = 15938355 / 1048576, humidity = 7851213 / 131072, salinity = 5033165 / 8388608\<rparr>),
      (1, \<lparr>temperature = 15938355 / 1048576, humidity = 7851213 / 131072, salinity = 5033165 / 8388608\<rparr>),
      (0, \<lparr>temperature = 15, humidity = 30, salinity = 1\<rparr>)]"
  by (simp add: draws_rounded_b_def sampled_def readings)

lemma usable_level: "usable_draws initial_state draws_level"
  by (simp add: usable_draws_def draws_level_def initial_state_def)

lemma nodes_level:
  "rev (map sampled draws_level) =
     [(15, \<lparr>temperature = 22, humidity = 30, salinity = 1\<rparr>),
      (14, \<lparr>temperature = 22, humidity = 4902093 / 65536, salinity = 1\<rparr>),
      (13, \<lparr>temperature = 22, humidity = 4902093 / 65536, salinity = 1\<rparr>),
      (12, \<lparr>temperature = 22, humidity = 4902093 / 65536, salinity = 1\<rparr>),
      (11, \<lparr>temperature = 22, humidity = 4902093 / 65536, salinity = 1\<rparr>),
      (10, \<lparr>temperature = 22, humidity = 4902093 / 65536, salinity = 1\<rparr>),
      (9, \<lparr>temperature = 22, humidity = 15781069 / 524288, salinity = 1\<rparr>),
      (8, \<lparr>temperature = 22, humidity = 15781069 / 524288, salinity = 1\<rparr>),
      (7, \<lparr>temperature = 22, humidity = 15781069 / 524288, salinity = 1\<rparr>),
      (6, \<lparr>temperature = 22, humidity = 15781069 / 524288, salinity = 1\<rparr>),
      (5, \<lparr>temperature = 22, humidity = 15781069 / 524288, salinity = 1\<rparr>),
      (4, \<lparr>temperature = 22, humidity = 15781069 / 524288, salinity = 1\<rparr>),
      (3, \<lparr>temperature = 22, humidity = 15781069 / 524288, salinity = 1\<rparr>),
      (2, \<lparr>temperature = 22, humidity = 15781069 / 524288, salinity = 1\<rparr>),
      (1, \<lparr>temperature = 22, humidity = 15781069 / 524288, salinity = 1\<rparr>),
      (0, \<lparr>temperature = 22, humidity = 15781069 / 524288, salinity = 1\<rparr>)]"
  by (simp add: draws_level_def sampled_def readings)

lemma usable_tied_a: "usable_draws initial_state draws_tied_a"
  by (simp add: usable_draws_def draws_tied_a_def initial_state_def)

lemma nodes_tied_a:
  "rev (map sampled draws_tied_a) =
     [(15, \<lparr>temperature = 15, humidity = 30, salinity = 1\<rparr>),
      (14, \<lparr>temperature = 15, humidity = 89, salinity = 1\<rparr>),
      (13, \<lparr>temperature = 20, humidity = 44, salinity = 1\<rparr>),
      (12, \<lparr>temperature = 20, humidity = 44, salinity = 1\<rparr>),
      (11, \<lparr>temperature = 20, humidity = 44, salinity = 1\<rparr>),
      (10, \<lparr>temperature = 20, humidity = 44, salinity = 1\<rparr>),
      (9, \<lparr>temperature = 20, humidity = 44, salinity = 1\<rparr>),
      (8, \<lparr>temperature = 20, humidity = 44, salinity = 1\<rparr>),
      (7, \<lparr>temperature = 20, humidity = 44, salinity = 1\<rparr>),
      (6, \<lparr>temperature = 20, humidity = 44, salinity = 1\<rparr>),
      (5, \<lparr>temperature = 20, humidity = 44, salinity = 1\<rparr>),
      (4, \<lparr>temperature = 20, humidity = 44, salinity = 1\<rparr>),
      (3, \<lparr>temperature = 20, humidity = 44, salinity = 1\<rparr>),
      (2, \<lparr>temperature = 20, humidity = 44, salinity = 1\<rparr>),
      (1, \<lparr>temperature = 20, humidity = 44, salinity = 1\<rparr>),
      (0, \<lparr>temperature = 20, humidity = 44, salinity = 1\<rparr>)]"
  by (simp add: draws_tied_a_def sampled_def readings)

lemma usable_tied_b: "usable_draws initial_state draws_tied_b"
  by (simp add: usable_draws_def draws_tied_b_def initial_state_def)


lemma unique_extremes_rounded_a: "unique_extremes (rev (map sampled draws_rounded_a))"
  unfolding unique_extremes_def nodes_rounded_a
  by (intro conjI bexI[of _ "(0, \<lparr>temperature = 15, humidity = 30, salinity = 1\<rparr>)"]
        bexI[of _ "(15, \<lparr>temperature = 30, humidity = 30, salinity = 1\<rparr>)"]) simp_all

section \<open>The claims\<close>

text \<open>C1. \<open>decideIrrigation\<close> returns one of four fixed labels, chosen in this order: humidity
  below 45.0 with salinity above 3.0 gives the salinity-risk label; humidity below 45.0 with
  salinity at most 3.0 gives the irrigate label; humidity above 80.0 gives the high-humidity
  label; anything else, that is humidity from 45.0 to 80.0, gives the ideal label. Exactly
  45.0 and exactly 80.0 are ideal, and the temperature argument has no influence.\<close>

theorem decideIrrigation_priority:
  "decideIrrigation temp hum sal =
     (if hum < 45 \<and> sal > 3 then ''NAO IRRIGAR (Risco de Salinidade Alta)''
      else if hum < 45 \<and> sal \<le> 3 then ''IRRIGAR (Umidade Baixa)''
      else if hum > 80 then ''NAO IRRIGAR (Umidade Alta)''
      else ''NAO IRRIGAR (Nivel Ideal)'') \<and>
   ((decideIrrigation temp hum sal = ''NAO IRRIGAR (Risco de Salinidade Alta)'') =
      (hum < 45 \<and> sal > 3)) \<and>
   ((decideIrrigation temp hum sal = ''IRRIGAR (Umidade Baixa)'') = (hum < 45 \<and> sal \<le> 3)) \<and>
   ((decideIrrigation temp hum sal = ''NAO IRRIGAR (Umidade Alta)'') = (hum > 80)) \<and>
   ((decideIrrigation temp hum sal = ''NAO IRRIGAR (Nivel Ideal)'') = (45 \<le> hum \<and> hum \<le> 80)) \<and>
   decideIrrigation temp 45 sal = ''NAO IRRIGAR (Nivel Ideal)'' \<and>
   decideIrrigation temp 80 sal = ''NAO IRRIGAR (Nivel Ideal)'' \<and>
   decideIrrigation temp hum sal = decideIrrigation temp' hum sal"
  by (auto simp: decideIrrigation_def)

text \<open>C2. Sixteen samples, one of them colder than every other and one warmer than every
  other: the scan selects these two nodes, they differ, the second loop adds up the other
  fourteen and counts 14, and the report carries the means of temperature, humidity and
  salinity over those fourteen as the sketch computes them: each sum accumulated in list
  order by \<open>float\<close> additions, then divided by 14 in \<open>float\<close>. When the sixteen samples
  are in the ranges of the sensors, each reported mean is within 1/8192 of the arithmetic
  mean of the fourteen.\<close>

theorem two_extremes_excluded:
  assumes cnt: "sampleCount s = 16"
    and nl: "node_list (heap s) (dataListHead s) ns"
    and len: "length ns = 16"
    and nmin: "nmin \<in> set ns" "\<forall>n\<in>set ns. n \<noteq> nmin \<longrightarrow> temp_of nmin < temp_of n"
    and nmax: "nmax \<in> set ns" "\<forall>n\<in>set ns. n \<noteq> nmax \<longrightarrow> temp_of n < temp_of nmax"
  shows "(\<exists>mp xp.
            find_min_max (heap s) (dataListHead s) None (dataListHead s) None (dataListHead s) None =
              Some (Inr (Some (fst nmin), mp, Some (fst nmax), xp))) \<and>
         nmin \<noteq> nmax \<and>
         sum_remaining (heap s) (dataListHead s) (Some (fst nmin)) (Some (fst nmax)) 0 0 0 0 =
           Some (Inr (sum_over temperature (filter (\<lambda>n. n \<noteq> nmin \<and> n \<noteq> nmax) ns),
                      sum_over humidity (filter (\<lambda>n. n \<noteq> nmin \<and> n \<noteq> nmax) ns),
                      sum_over salinity (filter (\<lambda>n. n \<noteq> nmin \<and> n \<noteq> nmax) ns),
                      14)) \<and>
         length (filter (\<lambda>n. n \<noteq> nmin \<and> n \<noteq> nmax) ns) = 14 \<and>
         processAndReportData s =
           Some (Inr (emit
             (removal_lines (temp_of nmin) (temp_of nmax) @
              printReport
                (mean temperature (filter (\<lambda>n. n \<noteq> nmin \<and> n \<noteq> nmax) ns))
                (mean humidity (filter (\<lambda>n. n \<noteq> nmin \<and> n \<noteq> nmax) ns))
                (mean salinity (filter (\<lambda>n. n \<noteq> nmin \<and> n \<noteq> nmax) ns))
                (decideIrrigation
                   (mean temperature (filter (\<lambda>n. n \<noteq> nmin \<and> n \<noteq> nmax) ns))
                   (mean humidity (filter (\<lambda>n. n \<noteq> nmin \<and> n \<noteq> nmax) ns))
                   (mean salinity (filter (\<lambda>n. n \<noteq> nmin \<and> n \<noteq> nmax) ns)))
                14) s)) \<and>
         (list_all (\<lambda>n. in_range (snd n)) ns \<longrightarrow>
            \<bar>mean temperature (filter (\<lambda>n. n \<noteq> nmin \<and> n \<noteq> nmax) ns) -
             exact_mean temperature (filter (\<lambda>n. n \<noteq> nmin \<and> n \<noteq> nmax) ns)\<bar> \<le> 1 / 8192 \<and>
            \<bar>mean humidity (filter (\<lambda>n. n \<noteq> nmin \<and> n \<noteq> nmax) ns) -
             exact_mean humidity (filter (\<lambda>n. n \<noteq> nmin \<and> n \<noteq> nmax) ns)\<bar> \<le> 1 / 8192 \<and>
            \<bar>mean salinity (filter (\<lambda>n. n \<noteq> nmin \<and> n \<noteq> nmax) ns) -
             exact_mean salinity (filter (\<lambda>n. n \<noteq> nmin \<and> n \<noteq> nmax) ns)\<bar> \<le> 1 / 8192)"
proof -
  from len have ne: "ns \<noteq> []" by auto
  have d: "distinct ns" using nl by (rule node_list_distinct_nodes)
  have smin: "select_min (hd ns) ns = nmin" using nmin by (rule select_min_unique)
  have smax: "select_max (hd ns) ns = nmax" using nmax by (rule select_max_unique)
  have "temp_of nmin < temp_of nmax"
    using extremes_differ[OF _ d nmin nmax] len by simp
  then have neq: "nmin \<noteq> nmax" by auto
  define rest where "rest = filter (\<lambda>n. n \<noteq> nmin \<and> n \<noteq> nmax) ns"
  have rem: "remaining_nodes (Some (fst nmin)) (Some (fst nmax)) ns = rest"
    unfolding rest_def using nl nmin(1) nmax(1) by (rule remaining_nodes_filter)
  have l14: "length rest = 14"
    unfolding rest_def using length_filter_two[OF d nmin(1) nmax(1)] neq len by simp
  then have rne: "rest \<noteq> []" by auto
  have scan: "\<exists>mp xp.
      find_min_max (heap s) (dataListHead s) None (dataListHead s) None (dataListHead s) None =
        Some (Inr (Some (fst nmin), mp, Some (fst nmax), xp))"
    using find_min_max_head[OF nl ne] by (simp add: smin smax)
  have sums: "sum_remaining (heap s) (dataListHead s) (Some (fst nmin)) (Some (fst nmax)) 0 0 0 0 =
      Some (Inr (sum_over temperature rest, sum_over humidity rest, sum_over salinity rest, 14))"
    using sum_remaining_head[OF nl, of "Some (fst nmin)" "Some (fst nmax)"] by (simp add: rem l14)
  have run: "processAndReportData s = Some (Inr (emit (report_of nmin nmax rest) s))"
    using process_nodes[OF _ nl ne] cnt rne
    by (simp add: SAMPLES_PER_CYCLE_def smin smax rem returns_def)
  have sub: "set rest \<subseteq> set ns" unfolding rest_def by auto
  have near: "\<bar>mean temperature rest - exact_mean temperature rest\<bar> \<le> 1 / 8192 \<and>
      \<bar>mean humidity rest - exact_mean humidity rest\<bar> \<le> 1 / 8192 \<and>
      \<bar>mean salinity rest - exact_mean salinity rest\<bar> \<le> 1 / 8192"
    if "list_all (\<lambda>n. in_range (snd n)) ns"
    using means_near[OF that sub] l14 by simp
  from scan neq sums l14 run near show ?thesis
    unfolding rest_def report_of_def by simp
qed

theorem two_extremes_excluded_witness:
  "sampleCount (state_after draws_rounded_b) = 16 \<and>
   node_list (heap (state_after draws_rounded_b)) (dataListHead (state_after draws_rounded_b))
     (rev (map sampled draws_rounded_b)) \<and>
   length (rev (map sampled draws_rounded_b)) = 16 \<and>
   map temp_of (rev (map sampled draws_rounded_b)) =
     [30, 7916749 / 524288, 7916749 / 524288, 7916749 / 524288, 7916749 / 524288,
      7916749 / 524288, 7916749 / 524288, 7916749 / 524288,
      15938355 / 1048576, 15938355 / 1048576, 15938355 / 1048576, 15938355 / 1048576,
      15938355 / 1048576, 15938355 / 1048576, 15938355 / 1048576, 15] \<and>
   map fst (filter (\<lambda>n. n \<noteq> (0, \<lparr>temperature = 15, humidity = 30, salinity = 1\<rparr>) \<and>
                       n \<noteq> (15, \<lparr>temperature = 30, humidity = 30, salinity = 1\<rparr>))
              (rev (map sampled draws_rounded_b))) =
     [14, 13, 12, 11, 10, 9, 8, 7, 6, 5, 4, 3, 2, 1] \<and>
   sum_remaining (heap (state_after draws_rounded_b)) (dataListHead (state_after draws_rounded_b))
     (Some 0) (Some 15) 0 0 0 0 =
     Some (Inr (1737523 / 8192, 630, 16148069 / 2097152, 14)) \<and>
   processAndReportData (state_after draws_rounded_b) =
     Some (Inr (emit
       (removal_lines 15 30 @
        printReport (15885925 / 1048576) 45 (2306867 / 4194304) ''NAO IRRIGAR (Nivel Ideal)'' 14)
       (state_after draws_rounded_b))) \<and>
   list_all (\<lambda>n. in_range (snd n)) (rev (map sampled draws_rounded_b)) \<and>
   exact_mean humidity
     (filter (\<lambda>n. n \<noteq> (0, \<lparr>temperature = 15, humidity = 30, salinity = 1\<rparr>) \<and>
                  n \<noteq> (15, \<lparr>temperature = 30, humidity = 30, salinity = 1\<rparr>))
        (rev (map sampled draws_rounded_b))) = 47185921 / 1048576 \<and>
   \<bar>45 - exact_mean humidity
     (filter (\<lambda>n. n \<noteq> (0, \<lparr>temperature = 15, humidity = 30, salinity = 1\<rparr>) \<and>
                  n \<noteq> (15, \<lparr>temperature = 30, humidity = 30, salinity = 1\<rparr>))
        (rev (map sampled draws_rounded_b)))\<bar> \<le> 1 / 8192"
proof -
  note ex = state_after_usable[OF usable_rounded_b]
  have cnt: "sampleCount (state_after draws_rounded_b) = 16"
    using ex(3) by (simp add: draws_rounded_b_def)
  have len: "length (rev (map sampled draws_rounded_b)) = 16" by (simp add: draws_rounded_b_def)
  have m1: "(0, \<lparr>temperature = 15, humidity = 30, salinity = 1\<rparr>) \<in>
      set (rev (map sampled draws_rounded_b))"
    unfolding nodes_rounded_b by simp
  have m2: "\<forall>n\<in>set (rev (map sampled draws_rounded_b)).
      n \<noteq> (0, \<lparr>temperature = 15, humidity = 30, salinity = 1\<rparr>) \<longrightarrow>
      temp_of (0, \<lparr>temperature = 15, humidity = 30, salinity = 1\<rparr>) < temp_of n"
    unfolding nodes_rounded_b by simp
  have x1: "(15, \<lparr>temperature = 30, humidity = 30, salinity = 1\<rparr>) \<in>
      set (rev (map sampled draws_rounded_b))"
    unfolding nodes_rounded_b by simp
  have x2: "\<forall>n\<in>set (rev (map sampled draws_rounded_b)).
      n \<noteq> (15, \<lparr>temperature = 30, humidity = 30, salinity = 1\<rparr>) \<longrightarrow>
      temp_of n < temp_of (15, \<lparr>temperature = 30, humidity = 30, salinity = 1\<rparr>)"
    unfolding nodes_rounded_b by simp
  have rng: "list_all (\<lambda>n. in_range (snd n)) (rev (map sampled draws_rounded_b))"
    unfolding nodes_rounded_b by (simp add: in_range_def)
  have mh: "exact_mean humidity
     (filter (\<lambda>n. n \<noteq> (0, \<lparr>temperature = 15, humidity = 30, salinity = 1\<rparr>) \<and>
                  n \<noteq> (15, \<lparr>temperature = 30, humidity = 30, salinity = 1\<rparr>))
        (rev (map sampled draws_rounded_b))) = 47185921 / 1048576"
    unfolding nodes_rounded_b by (simp add: exact_mean_def)
  have fm: "mean humidity
     (filter (\<lambda>n. n \<noteq> (0, \<lparr>temperature = 15, humidity = 30, salinity = 1\<rparr>) \<and>
                  n \<noteq> (15, \<lparr>temperature = 30, humidity = 30, salinity = 1\<rparr>))
        (rev (map sampled draws_rounded_b))) = 45"
    unfolding nodes_rounded_b by (simp add: mean_def sum_over_def float_eval)
  note main = two_extremes_excluded[OF cnt ex(2) len m1 m2 x1 x2]
  from main
  have "sum_remaining (heap (state_after draws_rounded_b)) (dataListHead (state_after draws_rounded_b))
     (Some 0) (Some 15) 0 0 0 0 =
     Some (Inr (1737523 / 8192, 630, 16148069 / 2097152, 14)) \<and>
    processAndReportData (state_after draws_rounded_b) =
     Some (Inr (emit
       (removal_lines 15 30 @
        printReport (15885925 / 1048576) 45 (2306867 / 4194304) ''NAO IRRIGAR (Nivel Ideal)'' 14)
       (state_after draws_rounded_b)))"
    unfolding nodes_rounded_b by (simp add: mean_def sum_over_def decideIrrigation_def float_eval)
  moreover from main rng have "\<bar>45 - exact_mean humidity
     (filter (\<lambda>n. n \<noteq> (0, \<lparr>temperature = 15, humidity = 30, salinity = 1\<rparr>) \<and>
                  n \<noteq> (15, \<lparr>temperature = 30, humidity = 30, salinity = 1\<rparr>))
        (rev (map sampled draws_rounded_b)))\<bar> \<le> 1 / 8192"
    unfolding fm[symmetric] by blast
  ultimately show ?thesis using cnt ex(2) len rng mh unfolding nodes_rounded_b by simp
qed

text \<open>The mean the sketch reports is not always the arithmetic mean of the fourteen samples.
  After the draws \<open>draws_rounded_a\<close> the fourteen humidities have the arithmetic mean
  47185921/1048576, a little above 45, but the \<open>float\<close> sum comes to 10321919/16384, below
  630, and the sketch reports 11796479/262144, a little below 45: it decides to irrigate where
  the arithmetic mean is at the ideal level.\<close>

theorem reported_mean_is_rounded:
  "sampleCount (state_after draws_rounded_a) = 16 \<and>
   node_list (heap (state_after draws_rounded_a)) (dataListHead (state_after draws_rounded_a))
     (rev (map sampled draws_rounded_a)) \<and>
   length (rev (map sampled draws_rounded_a)) = 16 \<and>
   unique_extremes (rev (map sampled draws_rounded_a)) \<and>
   processAndReportData (state_after draws_rounded_a) =
     Some (Inr (emit
       (removal_lines 15 30 @
        printReport (1985741 / 131072) (11796479 / 262144) (9227469 / 16777216)
          ''IRRIGAR (Umidade Baixa)'' 14)
       (state_after draws_rounded_a))) \<and>
   exact_mean humidity
     (filter (\<lambda>n. n \<noteq> (0, \<lparr>temperature = 15, humidity = 30, salinity = 1\<rparr>) \<and>
                  n \<noteq> (15, \<lparr>temperature = 30, humidity = 30, salinity = 1\<rparr>))
        (rev (map sampled draws_rounded_a))) = 47185921 / 1048576 \<and>
   (11796479 / 262144 :: real) \<noteq> 47185921 / 1048576 \<and>
   exact_mean temperature
     (filter (\<lambda>n. n \<noteq> (0, \<lparr>temperature = 15, humidity = 30, salinity = 1\<rparr>) \<and>
                  n \<noteq> (15, \<lparr>temperature = 30, humidity = 30, salinity = 1\<rparr>))
        (rev (map sampled draws_rounded_a))) = 31771853 / 2097152 \<and>
   (1985741 / 131072 :: real) \<noteq> 31771853 / 2097152 \<and>
   decideIrrigation (31771853 / 2097152) (47185921 / 1048576) (9227469 / 16777216) =
     ''NAO IRRIGAR (Nivel Ideal)''"
proof -
  note ex = state_after_usable[OF usable_rounded_a]
  have cnt: "sampleCount (state_after draws_rounded_a) = 16"
    using ex(3) by (simp add: draws_rounded_a_def)
  have len: "length (rev (map sampled draws_rounded_a)) = 16" by (simp add: draws_rounded_a_def)
  have run: "processAndReportData (state_after draws_rounded_a) =
     Some (Inr (emit
       (removal_lines 15 30 @
        printReport (1985741 / 131072) (11796479 / 262144) (9227469 / 16777216)
          ''IRRIGAR (Umidade Baixa)'' 14)
       (state_after draws_rounded_a)))"
    using process_sixteen(1)[OF cnt ex(2) len] unfolding nodes_rounded_a
    by (simp add: remaining_nodes_def report_of_def mean_def sum_over_def decideIrrigation_def
          float_eval)
  have mh: "exact_mean humidity
     (filter (\<lambda>n. n \<noteq> (0, \<lparr>temperature = 15, humidity = 30, salinity = 1\<rparr>) \<and>
                  n \<noteq> (15, \<lparr>temperature = 30, humidity = 30, salinity = 1\<rparr>))
        (rev (map sampled draws_rounded_a))) = 47185921 / 1048576"
    unfolding nodes_rounded_a by (simp add: exact_mean_def)
  have mt: "exact_mean temperature
     (filter (\<lambda>n. n \<noteq> (0, \<lparr>temperature = 15, humidity = 30, salinity = 1\<rparr>) \<and>
                  n \<noteq> (15, \<lparr>temperature = 30, humidity = 30, salinity = 1\<rparr>))
        (rev (map sampled draws_rounded_a))) = 31771853 / 2097152"
    unfolding nodes_rounded_a by (simp add: exact_mean_def)
  have ne: "(11796479 / 262144 :: real) \<noteq> 47185921 / 1048576"
    "(1985741 / 131072 :: real) \<noteq> 31771853 / 2097152"
    by simp_all
  have dec: "decideIrrigation (31771853 / 2097152) (47185921 / 1048576) (9227469 / 16777216) =
     ''NAO IRRIGAR (Nivel Ideal)''"
    by (simp add: decideIrrigation_def)
  from cnt ex(2) len unique_extremes_rounded_a run mh mt ne dec show ?thesis by blast
qed

text \<open>C3. Sixteen samples for which the scan selects one node both as coldest and as warmest,
  as it does when all sixteen temperatures are equal: that node is the head, every
  temperature is the same, the second loop leaves out that one node only and counts 15, and
  the report carries the means over those fifteen, summed and divided in \<open>float\<close> as the
  sketch does.\<close>

theorem same_node_excluded_once:
  assumes cnt: "sampleCount s = 16"
    and nl: "node_list (heap s) (dataListHead s) ns"
    and len: "length ns = 16"
    and same: "find_min_max (heap s) (dataListHead s) None (dataListHead s) None (dataListHead s) None =
                 Some (Inr (q, mp, q, xp)) \<or>
               list_all (\<lambda>n. temp_of n = temp_of (hd ns)) ns"
  shows "(\<exists>mp' xp'.
            find_min_max (heap s) (dataListHead s) None (dataListHead s) None (dataListHead s) None =
              Some (Inr (dataListHead s, mp', dataListHead s, xp'))) \<and>
         list_all (\<lambda>n. temp_of n = temp_of (hd ns)) ns \<and>
         sum_remaining (heap s) (dataListHead s) (dataListHead s) (dataListHead s) 0 0 0 0 =
           Some (Inr (sum_over temperature (tl ns), sum_over humidity (tl ns),
                      sum_over salinity (tl ns), 15)) \<and>
         length (tl ns) = 15 \<and>
         processAndReportData s =
           Some (Inr (emit
             (removal_lines (temp_of (hd ns)) (temp_of (hd ns)) @
              printReport (mean temperature (tl ns)) (mean humidity (tl ns)) (mean salinity (tl ns))
                (decideIrrigation (mean temperature (tl ns)) (mean humidity (tl ns))
                   (mean salinity (tl ns)))
                15) s))"
proof -
  from len have ne: "ns \<noteq> []" by auto
  have d: "distinct ns" using nl by (rule node_list_distinct_nodes)
  have level: "\<forall>n\<in>set ns. temp_of n = temp_of (hd ns)"
    using same
  proof
    assume scan: "find_min_max (heap s) (dataListHead s) None (dataListHead s) None
        (dataListHead s) None = Some (Inr (q, mp, q, xp))"
    with find_min_max_head[OF nl ne]
    have fe: "fst (select_min (hd ns) ns) = fst (select_max (hd ns) ns)" by auto
    have "select_min (hd ns) ns = select_max (hd ns) ns"
      using same_address[OF nl select_max_in[OF ne] select_min_in[OF ne]] fe by simp
    with ne show ?thesis by (rule same_node_all_equal)
  next
    assume "list_all (\<lambda>n. temp_of n = temp_of (hd ns)) ns"
    then show ?thesis by (simp add: list_all_iff)
  qed
  have "set (tl ns) \<subseteq> set ns" using ne by (cases ns) auto
  with level have tl: "\<forall>n\<in>set (tl ns). temp_of n = temp_of (hd ns)" by blast
  then have "\<forall>n\<in>set (tl ns). \<not> temp_of n < temp_of (hd ns)" by simp
  then have "select_min (hd ns) (tl ns) = hd ns" by (rule select_min_stays)
  then have smin: "select_min (hd ns) ns = hd ns"
    using select_min_hd[OF ne] by simp
  from tl have "\<forall>n\<in>set (tl ns). \<not> temp_of n > temp_of (hd ns)" by simp
  then have "select_max (hd ns) (tl ns) = hd ns" by (rule select_max_stays)
  then have smax: "select_max (hd ns) ns = hd ns"
    using select_max_hd[OF ne] by simp
  from ne nl have hd: "dataListHead s = Some (fst (hd ns))" by (cases ns) auto
  have scan: "\<exists>mp' xp'.
      find_min_max (heap s) (dataListHead s) None (dataListHead s) None (dataListHead s) None =
        Some (Inr (dataListHead s, mp', dataListHead s, xp'))"
    using find_min_max_head[OF nl ne] by (simp add: smin smax hd)
  have hdin: "hd ns \<in> set ns" using ne by simp
  have "remaining_nodes (Some (fst (hd ns))) (Some (fst (hd ns))) ns =
          filter (\<lambda>n. n \<noteq> hd ns \<and> n \<noteq> hd ns) ns"
    using nl hdin hdin by (rule remaining_nodes_filter)
  also have "\<dots> = remove1 (hd ns) ns" using d hdin by (rule remove_one_filter)
  also have "\<dots> = tl ns" using ne by (cases ns) simp_all
  finally have rem: "remaining_nodes (Some (fst (hd ns))) (Some (fst (hd ns))) ns = tl ns" .
  have l15: "length (tl ns) = 15" using len by simp
  have rne: "tl ns \<noteq> []" using len by (cases ns) auto
  have sums: "sum_remaining (heap s) (dataListHead s) (dataListHead s) (dataListHead s) 0 0 0 0 =
      Some (Inr (sum_over temperature (tl ns), sum_over humidity (tl ns),
                 sum_over salinity (tl ns), 15))"
    using sum_remaining_head[OF nl, of "dataListHead s" "dataListHead s"]
    by (simp add: hd rem len)
  have run: "processAndReportData s = Some (Inr (emit (report_of (hd ns) (hd ns) (tl ns)) s))"
    using process_nodes[OF _ nl ne] cnt rne
    by (simp add: SAMPLES_PER_CYCLE_def smin smax rem returns_def)
  from level have "list_all (\<lambda>n. temp_of n = temp_of (hd ns)) ns" by (simp add: list_all_iff)
  with scan sums l15 run show ?thesis
    unfolding report_of_def by simp
qed

theorem same_node_excluded_once_witness:
  "sampleCount (state_after draws_level) = 16 \<and>
   node_list (heap (state_after draws_level)) (dataListHead (state_after draws_level))
     (rev (map sampled draws_level)) \<and>
   length (rev (map sampled draws_level)) = 16 \<and>
   map temp_of (rev (map sampled draws_level)) =
     [22, 22, 22, 22, 22, 22, 22, 22, 22, 22, 22, 22, 22, 22, 22, 22] \<and>
   find_min_max (heap (state_after draws_level)) (dataListHead (state_after draws_level)) None
     (dataListHead (state_after draws_level)) None (dataListHead (state_after draws_level)) None =
     Some (Inr (Some 15, None, Some 15, None)) \<and>
   dataListHead (state_after draws_level) = Some 15 \<and>
   map fst (tl (rev (map sampled draws_level))) = [14, 13, 12, 11, 10, 9, 8, 7, 6, 5, 4, 3, 2, 1, 0] \<and>
   sum_remaining (heap (state_after draws_level)) (dataListHead (state_after draws_level))
     (Some 15) (Some 15) 0 0 0 0 = Some (Inr (330, 5529599 / 8192, 15, 15)) \<and>
   processAndReportData (state_after draws_level) =
     Some (Inr (emit
       (removal_lines 22 22 @
        printReport 22 (5898239 / 131072) 1 ''IRRIGAR (Umidade Baixa)'' 15)
       (state_after draws_level)))"
proof -
  note ex = state_after_usable[OF usable_level]
  have cnt: "sampleCount (state_after draws_level) = 16"
    using ex(3) by (simp add: draws_level_def)
  have len: "length (rev (map sampled draws_level)) = 16" by (simp add: draws_level_def)
  have scan: "find_min_max (heap (state_after draws_level)) (dataListHead (state_after draws_level))
      None (dataListHead (state_after draws_level)) None (dataListHead (state_after draws_level)) None =
      Some (Inr (Some 15, None, Some 15, None))"
    by (simp add: state_after_def draws_level_def collectSample_def initial_state_def
          find_min_max.simps deref_def readings)
  have hd: "dataListHead (state_after draws_level) = Some 15"
    using ex(2) unfolding nodes_level by simp
  from same_node_excluded_once[OF cnt ex(2) len disjI1[OF scan]]
  have "sum_remaining (heap (state_after draws_level)) (dataListHead (state_after draws_level))
     (Some 15) (Some 15) 0 0 0 0 = Some (Inr (330, 5529599 / 8192, 15, 15)) \<and>
    processAndReportData (state_after draws_level) =
     Some (Inr (emit
       (removal_lines 22 22 @
        printReport 22 (5898239 / 131072) 1 ''IRRIGAR (Umidade Baixa)'' 15)
       (state_after draws_level)))"
    unfolding nodes_level hd by (simp add: mean_def sum_over_def decideIrrigation_def float_eval)
  with cnt ex(2) len scan hd show ?thesis unfolding nodes_level by simp
qed




text \<open>Rounding alone changes the means too. The cycles \<open>draws_rounded_a\<close> and
  \<open>draws_rounded_b\<close> hold the same sixteen samples with one coldest and one warmest, and both
  exclude these two; but the fourteen humidities add up to 10321919/16384 in one order and
  to 630 in the other, so the first cycle reports 11796479/262144 and irrigates, and the
  second reports 45 and does not.\<close>

lemma rounding_changes_averages:
  "mset (map snd (rev (map sampled draws_rounded_b))) =
     mset (map snd (rev (map sampled draws_rounded_a))) \<and>
   unique_extremes (rev (map sampled draws_rounded_a)) \<and>
   processAndReportData (state_after draws_rounded_a) =
     Some (Inr (emit
       (removal_lines 15 30 @
        printReport (1985741 / 131072) (11796479 / 262144) (9227469 / 16777216)
          ''IRRIGAR (Umidade Baixa)'' 14)
       (state_after draws_rounded_a))) \<and>
   processAndReportData (state_after draws_rounded_b) =
     Some (Inr (emit
       (removal_lines 15 30 @
        printReport (15885925 / 1048576) 45 (2306867 / 4194304) ''NAO IRRIGAR (Nivel Ideal)'' 14)
       (state_after draws_rounded_b))) \<and>
   printReport (1985741 / 131072) (11796479 / 262144) (9227469 / 16777216)
     ''IRRIGAR (Umidade Baixa)'' 14 \<noteq>
   printReport (15885925 / 1048576) 45 (2306867 / 4194304) ''NAO IRRIGAR (Nivel Ideal)'' 14"
proof -
  note a = state_after_usable[OF usable_rounded_a]
  note b = state_after_usable[OF usable_rounded_b]
  have ca: "sampleCount (state_after draws_rounded_a) = 16"
    using a(3) by (simp add: draws_rounded_a_def)
  have cb: "sampleCount (state_after draws_rounded_b) = 16"
    using b(3) by (simp add: draws_rounded_b_def)
  have la: "length (rev (map sampled draws_rounded_a)) = 16" by (simp add: draws_rounded_a_def)
  have lb: "length (rev (map sampled draws_rounded_b)) = 16" by (simp add: draws_rounded_b_def)
  have perm: "mset (map snd (rev (map sampled draws_rounded_b))) =
      mset (map snd (rev (map sampled draws_rounded_a)))"
    unfolding nodes_rounded_a nodes_rounded_b by simp
  have ra: "processAndReportData (state_after draws_rounded_a) =
     Some (Inr (emit
       (removal_lines 15 30 @
        printReport (1985741 / 131072) (11796479 / 262144) (9227469 / 16777216)
          ''IRRIGAR (Umidade Baixa)'' 14)
       (state_after draws_rounded_a)))"
    using process_sixteen(1)[OF ca a(2) la] unfolding nodes_rounded_a
    by (simp add: remaining_nodes_def report_of_def mean_def sum_over_def decideIrrigation_def
          float_eval)
  have rb: "processAndReportData (state_after draws_rounded_b) =
     Some (Inr (emit
       (removal_lines 15 30 @
        printReport (15885925 / 1048576) 45 (2306867 / 4194304) ''NAO IRRIGAR (Nivel Ideal)'' 14)
       (state_after draws_rounded_b)))"
    using process_sixteen(1)[OF cb b(2) lb] unfolding nodes_rounded_b
    by (simp add: remaining_nodes_def report_of_def mean_def sum_over_def decideIrrigation_def
          float_eval)
  have diff: "printReport (1985741 / 131072) (11796479 / 262144) (9227469 / 16777216)
       ''IRRIGAR (Umidade Baixa)'' 14 \<noteq>
     printReport (15885925 / 1048576) 45 (2306867 / 4194304) ''NAO IRRIGAR (Nivel Ideal)'' 14"
    by (simp add: printReport_def Serial_print_def Serial_println_def)
  from perm unique_extremes_rounded_a ra rb diff show ?thesis by blast
qed

text \<open>C5. With the counter at 16 and sixteen samples in the list, the second loop counts 14 or
  15 remaining samples, so the processing step returns normally and never reaches the
  division by zero.\<close>

theorem remaining_count_not_zero:
  assumes "sampleCount s = 16" "node_list (heap s) (dataListHead s) ns" "length ns = 16"
  shows "\<exists>mn mp mx xp st sh ss k.
           find_min_max (heap s) (dataListHead s) None (dataListHead s) None (dataListHead s) None =
             Some (Inr (mn, mp, mx, xp)) \<and>
           sum_remaining (heap s) (dataListHead s) mn mx 0 0 0 0 = Some (Inr (st, sh, ss, k)) \<and>
           (k = 14 \<or> k = 15) \<and>
           (\<exists>s'. processAndReportData s = Some (Inr s')) \<and>
           processAndReportData s \<noteq> Some (Inl DivisionByZero)"
proof -
  from assms(3) have ne: "ns \<noteq> []" by auto
  define mn where "mn = Some (fst (select_min (hd ns) ns))"
  define mx where "mx = Some (fst (select_max (hd ns) ns))"
  from find_min_max_head[OF assms(2) ne] obtain mp xp where
    scan: "find_min_max (heap s) (dataListHead s) None (dataListHead s) None (dataListHead s) None =
             Some (Inr (mn, mp, mx, xp))"
    unfolding mn_def mx_def by blast
  have len: "length (remaining_nodes mn mx ns) = 14 \<or> length (remaining_nodes mn mx ns) = 15"
    unfolding mn_def mx_def using remaining_count[OF assms(2) ne] assms(3) by (simp split: if_splits)
  then have k: "int (length (remaining_nodes mn mx ns)) = 14 \<or> int (length (remaining_nodes mn mx ns)) = 15"
    by auto
  from len have nonempty: "remaining_nodes mn mx ns \<noteq> []" by auto
  have run: "processAndReportData s =
      Some (Inr (emit (report_of (select_min (hd ns) ns) (select_max (hd ns) ns)
                         (remaining_nodes mn mx ns)) s))"
    using process_nodes[OF _ assms(2) ne] assms(1) nonempty
    by (simp add: SAMPLES_PER_CYCLE_def mn_def mx_def returns_def)
  from scan sum_remaining_head[OF assms(2), of mn mx] k run show ?thesis by auto
qed

theorem remaining_count_not_zero_witness:
  "sampleCount (state_after draws_tied_b) = 16 \<and>
   node_list (heap (state_after draws_tied_b)) (dataListHead (state_after draws_tied_b))
     (rev (map sampled draws_tied_b)) \<and>
   length (rev (map sampled draws_tied_b)) = 16 \<and>
   (\<exists>mn mp mx xp st sh ss k.
      find_min_max (heap (state_after draws_tied_b)) (dataListHead (state_after draws_tied_b)) None
        (dataListHead (state_after draws_tied_b)) None (dataListHead (state_after draws_tied_b)) None =
        Some (Inr (mn, mp, mx, xp)) \<and>
      sum_remaining (heap (state_after draws_tied_b)) (dataListHead (state_after draws_tied_b))
        mn mx 0 0 0 0 = Some (Inr (st, sh, ss, k)) \<and>
      (k = 14 \<or> k = 15) \<and>
      (\<exists>s'. processAndReportData (state_after draws_tied_b) = Some (Inr s')) \<and>
      processAndReportData (state_after draws_tied_b) \<noteq> Some (Inl DivisionByZero))"
proof -
  note ex = state_after_usable[OF usable_tied_b]
  have cnt: "sampleCount (state_after draws_tied_b) = 16"
    using ex(3) by (simp add: draws_tied_b_def)
  have len: "length (rev (map sampled draws_tied_b)) = 16" by (simp add: draws_tied_b_def)
  from remaining_count_not_zero[OF cnt ex(2) len] cnt ex(2) len show ?thesis by blast
qed

text \<open>C6. In every reachable state the counter is the length of the sample sequence. Each
  operation keeps it so: \<open>collectSample\<close> puts exactly one node in front and adds 1 to the
  counter, \<open>clearList\<close> releases every node of the list and returns with the head
  \<open>nullptr\<close> and the counter 0, the processing step
  returns with the list and the counter it found; and sixteen calls of \<open>collectSample\<close> from
  the initial state give the counter 16 and a list of sixteen nodes.\<close>

theorem counter_is_sequence_length:
  assumes "reachable s"
  shows "\<exists>ns. node_list (heap s) (dataListHead s) ns \<and> sampleCount s = int (length ns) \<and>
           (\<forall>r1 r2 r3 a. heap s a = None \<longrightarrow>
              (\<exists>s'. collectSample r1 r2 r3 (Some a) s = Inr s' \<and>
                    node_list (heap s') (dataListHead s') (sampled (r1, r2, r3, a) # ns) \<and>
                    sampleCount s' = sampleCount s + 1)) \<and>
           clearList s =
             Some (Inr (s\<lparr>heap := (\<lambda>a. if a \<in> fst ` set ns then None else heap s a),
                          dataListHead := None, sampleCount := 0\<rparr>)) \<and>
           (\<exists>out. processAndReportData s = Some (Inr (emit out s)) \<and>
                  node_list (heap (emit out s)) (dataListHead (emit out s)) ns \<and>
                  sampleCount (emit out s) = sampleCount s) \<and>
           (\<forall>qs. usable_draws initial_state qs \<and> length qs = 16 \<longrightarrow>
              (\<exists>s'. collect_samples qs initial_state = Inr s' \<and> sampleCount s' = 16 \<and>
                    node_list (heap s') (dataListHead s') (rev (map sampled qs)) \<and>
                    length (rev (map sampled qs)) = 16))"
proof -
  from assms obtain ns where wf: "well_formed s ns" using reachable_well_formed by blast
  then have nl: "node_list (heap s) (dataListHead s) ns" and cnt: "sampleCount s = int (length ns)"
    by (simp_all add: well_formed_def)
  have collect: "\<forall>r1 r2 r3 a. heap s a = None \<longrightarrow>
              (\<exists>s'. collectSample r1 r2 r3 (Some a) s = Inr s' \<and>
                    node_list (heap s') (dataListHead s') (sampled (r1, r2, r3, a) # ns) \<and>
                    sampleCount s' = sampleCount s + 1)"
    using collectSample_nodes[OF nl] by blast
  have clear: "clearList s =
             Some (Inr (s\<lparr>heap := (\<lambda>a. if a \<in> fst ` set ns then None else heap s a),
                          dataListHead := None, sampleCount := 0\<rparr>))"
    using clearList_nodes[OF nl] by (simp add: returns_def)
  from processAndReportData_returns[OF nl cnt] obtain out where
    "processAndReportData s = Some (Inr (emit out s))" by blast
  with nl have process: "\<exists>out. processAndReportData s = Some (Inr (emit out s)) \<and>
                  node_list (heap (emit out s)) (dataListHead (emit out s)) ns \<and>
                  sampleCount (emit out s) = sampleCount s"
    by (auto simp: emit_frame)
  have sixteen: "\<forall>qs. usable_draws initial_state qs \<and> length qs = 16 \<longrightarrow>
              (\<exists>s'. collect_samples qs initial_state = Inr s' \<and> sampleCount s' = 16 \<and>
                    node_list (heap s') (dataListHead s') (rev (map sampled qs)) \<and>
                    length (rev (map sampled qs)) = 16)"
  proof (intro allI impI)
    fix qs assume h: "usable_draws initial_state qs \<and> length qs = 16"
    have "node_list (heap initial_state) (dataListHead initial_state) []"
      by (simp add: initial_state_def)
    from collect_samples_nodes[OF reachable.start _ this, of qs] h
    show "\<exists>s'. collect_samples qs initial_state = Inr s' \<and> sampleCount s' = 16 \<and>
                    node_list (heap s') (dataListHead s') (rev (map sampled qs)) \<and>
                    length (rev (map sampled qs)) = 16"
      by (auto simp: initial_state_def)
  qed
  from nl cnt collect clear process sixteen show ?thesis by blast
qed

theorem counter_is_sequence_length_witness:
  "reachable (state_after draws_level) \<and>
   node_list (heap (state_after draws_level)) (dataListHead (state_after draws_level))
     (rev (map sampled draws_level)) \<and>
   sampleCount (state_after draws_level) = 16 \<and>
   length (rev (map sampled draws_level)) = 16 \<and>
   heap (state_after draws_level) 16 = None \<and>
   (\<exists>s'. collectSample 0 0 0 (Some 16) (state_after draws_level) = Inr s' \<and>
         node_list (heap s') (dataListHead s') (sampled (0, 0, 0, 16) # rev (map sampled draws_level)) \<and>
         sampleCount s' = 17) \<and>
   clearList (state_after draws_level) =
     Some (Inr ((state_after draws_level)
       \<lparr>heap := (\<lambda>a. if a \<in> fst ` set (rev (map sampled draws_level)) then None
                      else heap (state_after draws_level) a),
        dataListHead := None, sampleCount := 0\<rparr>)) \<and>
   (\<exists>out. processAndReportData (state_after draws_level) =
           Some (Inr (emit out (state_after draws_level)))) \<and>
   usable_draws initial_state draws_level \<and> length draws_level = 16 \<and>
   collect_samples draws_level initial_state = Inr (state_after draws_level)"
proof -
  note ex = state_after_usable[OF usable_level]
  have len: "length draws_level = 16" by (simp add: draws_level_def)
  have cnt: "sampleCount (state_after draws_level) = 16" using ex(3) len by simp
  have fresh: "heap (state_after draws_level) 16 = None"
    by (simp add: state_after_def draws_level_def collectSample_def initial_state_def)
  from counter_is_sequence_length[OF ex(1)] obtain ns where
    nl: "node_list (heap (state_after draws_level)) (dataListHead (state_after draws_level)) ns"
    and c: "sampleCount (state_after draws_level) = int (length ns)"
    and collect: "\<forall>r1 r2 r3 a. heap (state_after draws_level) a = None \<longrightarrow>
              (\<exists>s'. collectSample r1 r2 r3 (Some a) (state_after draws_level) = Inr s' \<and>
                    node_list (heap s') (dataListHead s') (sampled (r1, r2, r3, a) # ns) \<and>
                    sampleCount s' = sampleCount (state_after draws_level) + 1)"
    and clear: "clearList (state_after draws_level) =
        Some (Inr ((state_after draws_level)
          \<lparr>heap := (\<lambda>a. if a \<in> fst ` set ns then None else heap (state_after draws_level) a),
           dataListHead := None, sampleCount := 0\<rparr>))"
    and process: "\<exists>out. processAndReportData (state_after draws_level) =
        Some (Inr (emit out (state_after draws_level))) \<and>
        node_list (heap (emit out (state_after draws_level)))
          (dataListHead (emit out (state_after draws_level))) ns \<and>
        sampleCount (emit out (state_after draws_level)) = sampleCount (state_after draws_level)"
    and sixteen: "\<forall>qs. usable_draws initial_state qs \<and> length qs = 16 \<longrightarrow>
              (\<exists>s'. collect_samples qs initial_state = Inr s' \<and> sampleCount s' = 16 \<and>
                    node_list (heap s') (dataListHead s') (rev (map sampled qs)) \<and>
                    length (rev (map sampled qs)) = 16)"
    by blast
  have ns: "ns = rev (map sampled draws_level)" using nl ex(2) by (rule node_list_unique)
  from sixteen usable_level len obtain s' where "collect_samples draws_level initial_state = Inr s'"
    by blast
  then have run: "collect_samples draws_level initial_state = Inr (state_after draws_level)"
    by (simp add: state_after_def)
  from collect fresh have "\<exists>s'. collectSample 0 0 0 (Some 16) (state_after draws_level) = Inr s' \<and>
         node_list (heap s') (dataListHead s') (sampled (0, 0, 0, 16) # rev (map sampled draws_level)) \<and>
         sampleCount s' = 17"
    unfolding ns cnt by fastforce
  moreover have "length (rev (map sampled draws_level)) = 16" using len by simp
  ultimately show ?thesis
    using ex(1,2) cnt len fresh clear[unfolded ns] process usable_level run by blast
qed

text \<open>C7. When the counter is not 16, the processing step returns normally and leaves the whole
  state as it was: list, counter, timestamp, and nothing is printed.\<close>

theorem processAndReportData_other_count:
  assumes "sampleCount s \<noteq> 16"
  shows "processAndReportData s = Some (Inr s)"
  using assms by (simp add: processAndReportData_def SAMPLES_PER_CYCLE_def returns_def)

theorem processAndReportData_other_count_witness:
  "sampleCount initial_state \<noteq> 16 \<and> processAndReportData initial_state = Some (Inr initial_state)"
proof -
  have h: "sampleCount initial_state \<noteq> 16" by (simp add: initial_state_def)
  show ?thesis using h processAndReportData_other_count[OF h] by simp
qed

text \<open>C8. On a list that is not empty, the scan selects as \<open>minNode\<close> the first node, in
  traversal order from the head, whose temperature is the least of the list, and as
  \<open>maxNode\<close> the first node whose temperature is the greatest: with several nodes at the
  extreme value, the one met first wins.\<close>

theorem first_extreme_selected:
  assumes "node_list h p ns" "ns \<noteq> []"
  shows "\<exists>mp xp. find_min_max h p None p None p None =
      Some (Inr (map_option fst (find (\<lambda>n. temp_of n = Min (temp_of ` set ns)) ns), mp,
                 map_option fst (find (\<lambda>n. temp_of n = Max (temp_of ` set ns)) ns), xp))"
  using find_min_max_head[OF assms] by (simp add: find_coldest[OF assms(2)] find_warmest[OF assms(2)])

theorem first_extreme_selected_witness:
  "node_list (heap (state_after draws_tied_a)) (dataListHead (state_after draws_tied_a))
     (rev (map sampled draws_tied_a)) \<and>
   rev (map sampled draws_tied_a) \<noteq> [] \<and>
   map temp_of (rev (map sampled draws_tied_a)) =
     [15, 15, 20, 20, 20, 20, 20, 20, 20, 20, 20, 20, 20, 20, 20, 20] \<and>
   map fst (rev (map sampled draws_tied_a)) = [15, 14, 13, 12, 11, 10, 9, 8, 7, 6, 5, 4, 3, 2, 1, 0] \<and>
   (\<exists>mp xp. find_min_max (heap (state_after draws_tied_a)) (dataListHead (state_after draws_tied_a))
      None (dataListHead (state_after draws_tied_a)) None (dataListHead (state_after draws_tied_a)) None =
      Some (Inr (Some 15, mp, Some 13, xp)))"
proof -
  note ex = state_after_usable[OF usable_tied_a]
  have ne: "rev (map sampled draws_tied_a) \<noteq> []" by (simp add: draws_tied_a_def)
  from first_extreme_selected[OF ex(2) ne] show ?thesis
    using ex(2) by (simp add: nodes_tied_a)
qed

text \<open>C9. The processing step only reads the list. Whenever it returns, the heap (every node's
  sample and link), the list head, the counter and the timestamp are what they were: the
  extreme nodes are skipped in the sums and stay in the list. And it does return, with the
  same list, on every state whose head leads through a list to \<open>nullptr\<close>, provided the
  list has three nodes or more when the counter is 16.\<close>

theorem processAndReportData_reads_only:
  "(processAndReportData s = Some (Inr s') \<longrightarrow>
      heap s' = heap s \<and> dataListHead s' = dataListHead s \<and>
      sampleCount s' = sampleCount s \<and> lastSampleTime s' = lastSampleTime s) \<and>
   (node_list (heap s) (dataListHead s) ns \<and> (sampleCount s = 16 \<longrightarrow> 3 \<le> length ns) \<longrightarrow>
      (\<exists>t. processAndReportData s = Some (Inr t) \<and> node_list (heap t) (dataListHead t) ns \<and>
           sampleCount t = sampleCount s))"
proof (intro conjI impI)
  assume "processAndReportData s = Some (Inr s')"
  then obtain out where "s' = emit out s" using processAndReportData_frame by blast
  then show "heap s' = heap s" "dataListHead s' = dataListHead s"
    "sampleCount s' = sampleCount s" "lastSampleTime s' = lastSampleTime s"
    by (simp_all add: emit_frame)
next
  assume wf: "node_list (heap s) (dataListHead s) ns \<and> (sampleCount s = 16 \<longrightarrow> 3 \<le> length ns)"
  then obtain out where "processAndReportData s = Some (Inr (emit out s))"
    using processAndReportData_returns_on_list by blast
  with wf show "\<exists>t. processAndReportData s = Some (Inr t) \<and>
      node_list (heap t) (dataListHead t) ns \<and> sampleCount t = sampleCount s"
    by (auto simp: emit_frame)
qed

theorem processAndReportData_reads_only_witness:
  "processAndReportData (state_after draws_tied_a) =
     Some (Inr (emit
       (removal_lines 15 20 @
        printReport (5149257 / 262144) (6188471 / 131072) 1 ''NAO IRRIGAR (Nivel Ideal)'' 14)
       (state_after draws_tied_a))) \<and>
   heap (emit
       (removal_lines 15 20 @
        printReport (5149257 / 262144) (6188471 / 131072) 1 ''NAO IRRIGAR (Nivel Ideal)'' 14)
       (state_after draws_tied_a)) = heap (state_after draws_tied_a) \<and>
   dataListHead (emit
       (removal_lines 15 20 @
        printReport (5149257 / 262144) (6188471 / 131072) 1 ''NAO IRRIGAR (Nivel Ideal)'' 14)
       (state_after draws_tied_a)) = dataListHead (state_after draws_tied_a) \<and>
   sampleCount (emit
       (removal_lines 15 20 @
        printReport (5149257 / 262144) (6188471 / 131072) 1 ''NAO IRRIGAR (Nivel Ideal)'' 14)
       (state_after draws_tied_a)) = sampleCount (state_after draws_tied_a) \<and>
   node_list (heap (state_after draws_tied_a)) (dataListHead (state_after draws_tied_a))
     (rev (map sampled draws_tied_a)) \<and>
   sampleCount (state_after draws_tied_a) = 16 \<and>
   3 \<le> length (rev (map sampled draws_tied_a)) \<and>
   (\<exists>t. processAndReportData (state_after draws_tied_a) = Some (Inr t) \<and>
        node_list (heap t) (dataListHead t) (rev (map sampled draws_tied_a)) \<and>
        sampleCount t = sampleCount (state_after draws_tied_a))"
proof -
  note ex = state_after_usable[OF usable_tied_a]
  have c16: "sampleCount (state_after draws_tied_a) = 16"
    using ex(3) by (simp add: draws_tied_a_def)
  have l16: "length (rev (map sampled draws_tied_a)) = 16" by (simp add: draws_tied_a_def)
  then have long: "3 \<le> length (rev (map sampled draws_tied_a))" by simp
  have run: "processAndReportData (state_after draws_tied_a) =
     Some (Inr (emit
       (removal_lines 15 20 @
        printReport (5149257 / 262144) (6188471 / 131072) 1 ''NAO IRRIGAR (Nivel Ideal)'' 14)
       (state_after draws_tied_a)))"
    using process_sixteen(1)[OF c16 ex(2) l16] unfolding nodes_tied_a
    by (simp add: remaining_nodes_def report_of_def mean_def sum_over_def decideIrrigation_def
          float_eval)
  from processAndReportData_reads_only[of "state_after draws_tied_a" _ "rev (map sampled draws_tied_a)"]
    run ex(2) c16 long
  show ?thesis by blast
qed

text \<open>C10. For every value \<open>rand()\<close> can return (none is negative), the simulated temperature is
  in [15.0, 35.0], the humidity in [30.0, 90.0] and the salinity in [0.5, 4.0]; so the node
  \<open>collectSample\<close> inserts holds a sample in these ranges, and so does every node of the list
  of any reachable state.\<close>

theorem simulated_readings_in_range:
  assumes "0 \<le> r1" "0 \<le> r2" "0 \<le> r3"
  shows "15 \<le> readSimulatedTemperature r1 \<and> readSimulatedTemperature r1 \<le> 35 \<and>
         30 \<le> readSimulatedHumidity r2 \<and> readSimulatedHumidity r2 \<le> 90 \<and>
         0.5 \<le> readSimulatedSalinity r3 \<and> readSimulatedSalinity r3 \<le> 4 \<and>
         (\<exists>s' c. collectSample r1 r2 r3 (Some a) s = Inr s' \<and>
                 deref (heap s') (dataListHead s') = Some c \<and> in_range (data c)) \<and>
         (\<forall>t ns. reachable t \<and> node_list (heap t) (dataListHead t) ns \<longrightarrow>
                 list_all (\<lambda>n. in_range (snd n)) ns)"
proof -
  have r: "in_range (snd (sampled (r1, r2, r3, a)))" using assms by (rule in_range_sampled)
  then have bounds: "15 \<le> readSimulatedTemperature r1 \<and> readSimulatedTemperature r1 \<le> 35 \<and>
         30 \<le> readSimulatedHumidity r2 \<and> readSimulatedHumidity r2 \<le> 90 \<and>
         0.5 \<le> readSimulatedSalinity r3 \<and> readSimulatedSalinity r3 \<le> 4"
    by (simp add: in_range_def sampled_def)
  have ins: "\<exists>s' c. collectSample r1 r2 r3 (Some a) s = Inr s' \<and>
                 deref (heap s') (dataListHead s') = Some c \<and> in_range (data c)"
    using r by (simp add: collectSample_def deref_def sampled_def)
  have all: "\<forall>t ns. reachable t \<and> node_list (heap t) (dataListHead t) ns \<longrightarrow>
                 list_all (\<lambda>n. in_range (snd n)) ns"
  proof (intro allI impI)
    fix t ns assume h: "reachable t \<and> node_list (heap t) (dataListHead t) ns"
    then obtain ms where "well_formed t ms" using reachable_well_formed by blast
    with h show "list_all (\<lambda>n. in_range (snd n)) ns"
      using node_list_unique by (auto simp: well_formed_def)
  qed
  from bounds ins all show ?thesis by blast
qed

theorem simulated_readings_in_range_witness:
  "(0::int) \<le> 199 \<and> (0::int) \<le> 599 \<and> (0::int) \<le> 34 \<and>
   readSimulatedTemperature 199 = 4574413 / 131072 \<and> readSimulatedTemperature 199 \<le> 35 \<and>
   readSimulatedHumidity 599 = 11783373 / 131072 \<and> readSimulatedHumidity 599 \<le> 90 \<and>
   readSimulatedSalinity 34 = 8178893 / 2097152 \<and> readSimulatedSalinity 34 \<le> 4 \<and>
   reachable (state_after draws_tied_a) \<and>
   node_list (heap (state_after draws_tied_a)) (dataListHead (state_after draws_tied_a))
     (rev (map sampled draws_tied_a)) \<and>
   list_all (\<lambda>n. in_range (snd n)) (rev (map sampled draws_tied_a))"
proof -
  have h: "(0::int) \<le> 199" "(0::int) \<le> 599" "(0::int) \<le> 34" by simp_all
  have v: "readSimulatedTemperature 199 = 4574413 / 131072" "readSimulatedHumidity 599 = 11783373 / 131072"
    "readSimulatedSalinity 34 = 8178893 / 2097152"
    by (simp_all add: readSimulatedTemperature_def readSimulatedHumidity_def
          readSimulatedSalinity_def smod_int_alt_def float_eval)
  note ex = state_after_usable[OF usable_tied_a]
  from simulated_readings_in_range[OF h, of 0 initial_state] ex(1,2) h v show ?thesis by blast
qed

end
